theory Spec2Isabelle
  imports Main
begin

section \<open>The 0/1 knapsack solver of knapsack.py\<close>

text \<open>
  The class \<^verbatim>\<open>KnapsackSolver\<close> stores the two item lists, the capacity and the item
  count, and offers four solving methods and a consistency check over them. Python
  integers are unbounded, so they are \<^typ>\<open>int\<close>; every exception the code can raise
  is a value of the type \<open>error\<close>, and a method returns \<open>error + int\<close>.
\<close>

subsection \<open>Errors, Python indexing, the instance\<close>

text \<open>
  Two places raise \<^verbatim>\<open>ValueError\<close>: NumPy, when it refuses the shape of an array
  (a negative dimension, a dimension that is no 64-bit integer, a size in bytes that
  is none), and \<^verbatim>\<open>solve_all\<close>, with the dictionary of the four results in its
  message.
\<close>

datatype message =
    NegativeDimensions
  | MaximumDimensionExceeded
  | ArrayTooBig
  | InconsistentResults "(string \<times> int) list"

datatype error =
    IndexError
  | ValueError message
  | OverflowError
  | RecursionError
  | MemoryError

definition bindE :: "error + 'a \<Rightarrow> ('a \<Rightarrow> error + 'b) \<Rightarrow> error + 'b" where
  "bindE x f = (case x of Inl e \<Rightarrow> Inl e | Inr a \<Rightarrow> f a)"

text \<open>
  Indexing a Python list: an index below zero counts from the end, an index out of
  range raises \<^verbatim>\<open>IndexError\<close>.
\<close>

definition norm_index :: "nat \<Rightarrow> int \<Rightarrow> error + nat" where
  "norm_index l i =
     (let j = (if i < 0 then int l + i else i)
      in if 0 \<le> j \<and> j < int l then Inr (nat j) else Inl IndexError)"

definition py_index :: "'a list \<Rightarrow> int \<Rightarrow> error + 'a" where
  "py_index xs i = bindE (norm_index (length xs) i) (\<lambda>j. Inr (xs ! j))"

record KnapsackSolver =
  weights :: "int list"
  item_values :: "int list"
  capacity :: int
  n :: int

text \<open>
  \<^verbatim>\<open>__init__\<close> stores its three arguments and the length of \<^verbatim>\<open>weights\<close>. It has no
  check and no raise, so the model's constructor returns on the right of the sum for
  every input.
\<close>

definition KnapsackSolver_init :: "int list \<Rightarrow> int list \<Rightarrow> int \<Rightarrow> error + KnapsackSolver" where
  "KnapsackSolver_init ws vs cap =
     Inr \<lparr>weights = ws, item_values = vs, capacity = cap, n = int (length ws)\<rparr>"

text \<open>The literal \<^verbatim>\<open>-10**9\<close> that every method assigns to \<^verbatim>\<open>take\<close> first.\<close>

definition NEG :: int where
  "NEG = - (10 ^ 9)"

subsection \<open>The recursion limit\<close>

text \<open>
  CPython counts the calls in progress and raises \<^verbatim>\<open>RecursionError\<close> at the call
  that would take the count to the recursion limit. The limit is 1000 unless
  \<^verbatim>\<open>sys.setrecursionlimit\<close> changes it, which the source never does. The two
  nested functions therefore take one more argument, the number of calls that the
  interpreter still allows, the call itself included: with none left the call raises.

  When the file is run as a script, four calls are in progress when a method calls its
  nested function for the first time: the module, \<^verbatim>\<open>run_test_suite\<close>,
  \<^verbatim>\<open>solve_all\<close> and the method. That leaves 995 calls to the nested function.
\<close>

definition recursion_limit :: nat where
  "recursion_limit = 1000"

definition frames_in_use :: nat where
  "frames_in_use = 4"

definition dfs_frames :: nat where
  "dfs_frames = recursion_limit - 1 - frames_in_use"

subsection \<open>Representation A, top-down: \<^verbatim>\<open>dfs_a\<close>\<close>

type_synonym memo = "int \<times> int \<rightharpoonup> int"

text \<open>
  The nested function \<^verbatim>\<open>dfs(i, c)\<close> of \<^verbatim>\<open>dfs_a\<close>. The dictionary \<^verbatim>\<open>memo\<close> is a
  local variable of the enclosing call that the nested function mutates; here it is
  passed in and returned. An exception leaves the dictionary as it was at the raise.
  The first argument is the number of calls still allowed.
\<close>

fun dfs_A :: "nat \<Rightarrow> KnapsackSolver \<Rightarrow> int \<Rightarrow> int \<Rightarrow> memo \<Rightarrow> (error + int) \<times> memo" where
  "dfs_A 0 s i c m = (Inl RecursionError, m)"
| "dfs_A (Suc d) s i c m =
     (if i \<ge> n s \<or> c \<le> 0 then (Inr 0, m)
      else case m (i, c) of
        Some r \<Rightarrow> (Inr r, m)
      | None \<Rightarrow>
         (case dfs_A d s (i + 1) c m of
            (Inl e, m1) \<Rightarrow> (Inl e, m1)
          | (Inr skip, m1) \<Rightarrow>
             (case py_index (weights s) i of
                Inl e \<Rightarrow> (Inl e, m1)
              | Inr w \<Rightarrow>
                 if c \<ge> w then
                   (case py_index (item_values s) i of
                      Inl e \<Rightarrow> (Inl e, m1)
                    | Inr v \<Rightarrow>
                       (case py_index (weights s) i of
                          Inl e \<Rightarrow> (Inl e, m1)
                        | Inr w' \<Rightarrow>
                           (case dfs_A d s (i + 1) (c - w') m1 of
                              (Inl e, m2) \<Rightarrow> (Inl e, m2)
                            | (Inr r, m2) \<Rightarrow>
                               (let res = max skip (v + r)
                                in (Inr res, m2((i, c) \<mapsto> res))))))
                 else
                   (let res = max skip NEG
                    in (Inr res, m1((i, c) \<mapsto> res))))))"

text \<open>
  The method, when the interpreter still allows \<open>d\<close> calls to the nested function,
  and the method as the script calls it.
\<close>

definition dfs_a_in :: "nat \<Rightarrow> KnapsackSolver \<Rightarrow> error + int" where
  "dfs_a_in d s = fst (dfs_A d s 0 (capacity s) Map.empty)"

definition dfs_a :: "KnapsackSolver \<Rightarrow> error + int" where
  "dfs_a s = dfs_a_in dfs_frames s"

subsection \<open>Representation B, top-down: \<^verbatim>\<open>dfs_b\<close>\<close>

text \<open>
  The nested function \<^verbatim>\<open>dfs(k, w)\<close> of \<^verbatim>\<open>dfs_b\<close>. Its only base case is
  \<^verbatim>\<open>k == 0\<close>, and the skip branch is computed first: from an empty dictionary the
  first call descends from \<open>k\<close> to 0 whatever the capacity, and a call with a
  negative \<open>k\<close> descends until \<^verbatim>\<open>RecursionError\<close> is raised.
\<close>

fun dfs_B :: "nat \<Rightarrow> KnapsackSolver \<Rightarrow> int \<Rightarrow> int \<Rightarrow> memo \<Rightarrow> (error + int) \<times> memo" where
  "dfs_B 0 s k w m = (Inl RecursionError, m)"
| "dfs_B (Suc d) s k w m =
     (if k = 0 then (Inr 0, m)
      else case m (k, w) of
        Some r \<Rightarrow> (Inr r, m)
      | None \<Rightarrow>
         (case dfs_B d s (k - 1) w m of
            (Inl e, m1) \<Rightarrow> (Inl e, m1)
          | (Inr skip, m1) \<Rightarrow>
             (case py_index (weights s) (k - 1) of
                Inl e \<Rightarrow> (Inl e, m1)
              | Inr wt \<Rightarrow>
                 if w \<ge> wt then
                   (case py_index (item_values s) (k - 1) of
                      Inl e \<Rightarrow> (Inl e, m1)
                    | Inr v \<Rightarrow>
                       (case py_index (weights s) (k - 1) of
                          Inl e \<Rightarrow> (Inl e, m1)
                        | Inr wt' \<Rightarrow>
                           (case dfs_B d s (k - 1) (w - wt') m1 of
                              (Inl e, m2) \<Rightarrow> (Inl e, m2)
                            | (Inr r, m2) \<Rightarrow>
                               (let res = max skip (v + r)
                                in (Inr res, m2((k, w) \<mapsto> res))))))
                 else
                   (let res = max skip NEG
                    in (Inr res, m1((k, w) \<mapsto> res))))))"

definition dfs_b_in :: "nat \<Rightarrow> KnapsackSolver \<Rightarrow> error + int" where
  "dfs_b_in d s = fst (dfs_B d s (n s) (capacity s) Map.empty)"

definition dfs_b :: "KnapsackSolver \<Rightarrow> error + int" where
  "dfs_b s = dfs_b_in dfs_frames s"

subsection \<open>NumPy arrays\<close>

text \<open>
  A two-dimensional array is a list of rows. An integer index follows Python's rule:
  below zero it counts from the end, out of range it raises \<^verbatim>\<open>IndexError\<close>.

  \<^verbatim>\<open>np.full\<close> and \<^verbatim>\<open>np.zeros\<close> first convert the two dimensions to 64-bit
  integers, and raise \<^verbatim>\<open>ValueError\<close> when one does not fit. Then they go through
  the dimensions in order, multiplying the size in bytes of an element, 8 for both
  arrays of the source, by each dimension other than zero: a negative dimension
  raises \<^verbatim>\<open>ValueError\<close>, and so does a product that is no 64-bit integer. A dimension
  of zero gives an array with no element. The memory is then allocated, and
  \<^verbatim>\<open>MemoryError\<close> is raised when it cannot be. How much can be allocated depends on
  the machine: it is taken here to be all that a 64-bit process can address, which is
  \<open>2 ^ 47\<close> bytes.
\<close>

type_synonym 'a grid = "'a list list"

definition memory_limit :: int where
  "memory_limit = 2 ^ 47"

definition np_full :: "int \<Rightarrow> int \<Rightarrow> 'a \<Rightarrow> error + 'a grid" where
  "np_full rows cols x =
     (let r = (if rows = 0 then 1 else rows)
      in if rows < - (2 ^ 63) \<or> 2 ^ 63 \<le> rows \<or> cols < - (2 ^ 63) \<or> 2 ^ 63 \<le> cols
           then Inl (ValueError MaximumDimensionExceeded)
         else if rows < 0 then Inl (ValueError NegativeDimensions)
         else if 2 ^ 63 \<le> 8 * r then Inl (ValueError ArrayTooBig)
         else if cols < 0 then Inl (ValueError NegativeDimensions)
         else if 2 ^ 63 \<le> 8 * r * cols then Inl (ValueError ArrayTooBig)
         else if memory_limit < 8 * rows * cols then Inl MemoryError
         else Inr (replicate (nat rows) (replicate (nat cols) x)))"

text \<open>\<^verbatim>\<open>dp[r][c]\<close>: the row first, then the element.\<close>

definition np_get :: "'a grid \<Rightarrow> int \<Rightarrow> int \<Rightarrow> error + 'a" where
  "np_get dp r c = bindE (py_index dp r) (\<lambda>row. py_index row c)"

text \<open>\<^verbatim>\<open>dp[r][c] = x\<close>.\<close>

definition np_set :: "'a grid \<Rightarrow> int \<Rightarrow> int \<Rightarrow> 'a \<Rightarrow> error + 'a grid" where
  "np_set dp r c x =
     bindE (norm_index (length dp) r) (\<lambda>i.
     bindE (norm_index (length (dp ! i)) c) (\<lambda>j.
       Inr (dp[i := (dp ! i)[j := x]])))"

text \<open>\<^verbatim>\<open>dp[r, :] = x\<close>.\<close>

definition np_set_row :: "'a grid \<Rightarrow> int \<Rightarrow> 'a \<Rightarrow> error + 'a grid" where
  "np_set_row dp r x =
     bindE (norm_index (length dp) r) (\<lambda>i.
       Inr (dp[i := replicate (length (dp ! i)) x]))"

text \<open>
  A \<^verbatim>\<open>for\<close> loop over a list of indices whose body updates the array; an exception
  in the body ends the loop.
\<close>

fun for_each :: "'i list \<Rightarrow> ('i \<Rightarrow> 'st \<Rightarrow> error + 'st) \<Rightarrow> 'st \<Rightarrow> error + 'st" where
  "for_each [] body st = Inr st"
| "for_each (x # xs) body st = bindE (body x st) (for_each xs body)"

subsection \<open>Representation A, bottom-up: \<^verbatim>\<open>dp_a\<close>\<close>

text \<open>
  \<^verbatim>\<open>np.full((n + 1, capacity + 1), -10**9)\<close> is an array of 64-bit signed integers
  (NumPy's default integer on 64-bit Linux and macOS, and everywhere from NumPy 2).
  A cell is kept as the \<^typ>\<open>int\<close> it denotes, within \<open>- 2 ^ 63 \<le> x < 2 ^ 63\<close>.
  In \<^verbatim>\<open>self.values[i] + dp[i + 1][...]\<close> the left operand is a Python integer and
  the right one a NumPy scalar: the sum is a 64-bit integer that wraps around on
  overflow (with a warning only), and a Python integer outside the 64-bit range is
  refused with \<^verbatim>\<open>OverflowError\<close>.
\<close>

definition wrap64 :: "int \<Rightarrow> int" where
  "wrap64 x = (x + 2 ^ 63) mod 2 ^ 64 - 2 ^ 63"

definition int64_add :: "int \<Rightarrow> int \<Rightarrow> error + int" where
  "int64_add v x =
     (if - (2 ^ 63) \<le> v \<and> v < 2 ^ 63 then Inr (wrap64 (v + x)) else Inl OverflowError)"

text \<open>The body of the inner loop of \<^verbatim>\<open>dp_a\<close>, up to the value it assigns.\<close>

definition cell_a :: "KnapsackSolver \<Rightarrow> int grid \<Rightarrow> int \<Rightarrow> int \<Rightarrow> error + int" where
  "cell_a s dp i c =
     bindE (np_get dp (i + 1) c) (\<lambda>skip.
     bindE (py_index (weights s) i) (\<lambda>w.
       if c \<ge> w then
         bindE (py_index (item_values s) i) (\<lambda>v.
         bindE (py_index (weights s) i) (\<lambda>w'.
         bindE (np_get dp (i + 1) (c - w')) (\<lambda>x.
         bindE (int64_add v x) (\<lambda>take.
           Inr (max skip take)))))
       else Inr (max skip NEG)))"

definition dp_a :: "KnapsackSolver \<Rightarrow> error + int" where
  "dp_a s =
     bindE (np_full (n s + 1) (capacity s + 1) NEG) (\<lambda>dp.
     bindE (np_set_row dp (n s) 0) (\<lambda>dp.
     bindE (for_each (rev [0 .. n s - 1]) (\<lambda>i.
              for_each [0 .. capacity s] (\<lambda>c dp.
                bindE (cell_a s dp i c) (\<lambda>x. np_set dp i c x))) dp) (\<lambda>dp.
       np_get dp 0 (capacity s))))"

subsection \<open>Representation B, bottom-up: \<^verbatim>\<open>dp_b\<close>\<close>

text \<open>
  \<^verbatim>\<open>np.zeros((n + 1, capacity + 1))\<close> is an array of IEEE double-precision numbers.
  The only numbers the loop can put in it are whole numbers and the two infinities:
  a cell is \<open>Fin x\<close> for the integer \<open>x\<close> it denotes, or an infinity. A double has 53
  significant bits: \<open>round_f64\<close> is the nearest such number to an integer, ties going
  to the even neighbour, and a result of magnitude \<open>2 ^ 1024\<close> or more is out of the
  doubles' range.
\<close>

datatype float64 = NInf | Fin int | PInf

text \<open>Python's \<^verbatim>\<open>int.bit_length\<close>, for a positive integer.\<close>

function bit_length :: "int \<Rightarrow> nat" where
  "bit_length k = (if k \<le> 0 then 0 else Suc (bit_length (k div 2)))"
  by pat_completeness auto
termination
proof (relation "measure nat")
  show "wf (measure nat)" by simp
next
  fix k :: int
  assume pos: "\<not> k \<le> 0"
  then have "k div 2 < k" by simp
  with pos show "(k div 2, k) \<in> measure nat" by simp
qed

declare bit_length.simps [simp del]

definition round_f64 :: "int \<Rightarrow> int" where
  "round_f64 x =
     (let a = \<bar>x\<bar> in
      if a < 2 ^ 53 then x
      else
        let e = bit_length a - 53;
            q = a div 2 ^ e;
            r = a mod 2 ^ e;
            q' = (if 2 * r > 2 ^ e \<or> (2 * r = 2 ^ e \<and> odd q) then q + 1 else q)
        in sgn x * (q' * 2 ^ e))"

text \<open>
  \<^verbatim>\<open>float(v)\<close> for a Python integer, as the mixed sum does first: \<^verbatim>\<open>OverflowError\<close>
  when the integer is too large for a double.
\<close>

definition py_float :: "int \<Rightarrow> error + int" where
  "py_float v =
     (let r = round_f64 v in if \<bar>r\<bar> \<ge> 2 ^ 1024 then Inl OverflowError else Inr r)"

text \<open>The sum of a finite double and a cell: rounded, and overflowing to an infinity.\<close>

fun f64_add :: "int \<Rightarrow> float64 \<Rightarrow> float64" where
  "f64_add a NInf = NInf"
| "f64_add a PInf = PInf"
| "f64_add a (Fin x) =
     (let r = round_f64 (a + x)
      in if r \<ge> 2 ^ 1024 then PInf else if r \<le> - (2 ^ 1024) then NInf else Fin r)"

fun f64_less :: "float64 \<Rightarrow> float64 \<Rightarrow> bool" where
  "f64_less NInf y = (y \<noteq> NInf)"
| "f64_less (Fin x) (Fin y) = (x < y)"
| "f64_less (Fin x) PInf = True"
| "f64_less (Fin x) NInf = False"
| "f64_less PInf y = False"

text \<open>Python's \<^verbatim>\<open>max(x, y)\<close>: the second argument only when it is greater.\<close>

definition f64_max :: "float64 \<Rightarrow> float64 \<Rightarrow> float64" where
  "f64_max x y = (if f64_less x y then y else x)"

text \<open>\<^verbatim>\<open>int(x)\<close> for a double: \<^verbatim>\<open>OverflowError\<close> on an infinity.\<close>

fun py_int :: "float64 \<Rightarrow> error + int" where
  "py_int (Fin x) = Inr x"
| "py_int PInf = Inl OverflowError"
| "py_int NInf = Inl OverflowError"

text \<open>The body of the inner loop of \<^verbatim>\<open>dp_b\<close>, up to the value it assigns.\<close>

definition cell_b :: "KnapsackSolver \<Rightarrow> float64 grid \<Rightarrow> int \<Rightarrow> int \<Rightarrow> error + float64" where
  "cell_b s dp k w =
     bindE (np_get dp (k - 1) w) (\<lambda>skip.
     bindE (py_index (weights s) (k - 1)) (\<lambda>wt.
       if w \<ge> wt then
         bindE (py_index (item_values s) (k - 1)) (\<lambda>v.
         bindE (py_index (weights s) (k - 1)) (\<lambda>wt'.
         bindE (np_get dp (k - 1) (w - wt')) (\<lambda>x.
         bindE (py_float v) (\<lambda>fv.
           Inr (f64_max skip (f64_add fv x))))))
       else Inr (f64_max skip (Fin NEG))))"

definition dp_b :: "KnapsackSolver \<Rightarrow> error + int" where
  "dp_b s =
     bindE (np_full (n s + 1) (capacity s + 1) (Fin 0)) (\<lambda>dp.
     bindE (for_each [1 .. n s] (\<lambda>k.
              for_each [0 .. capacity s] (\<lambda>w dp.
                bindE (cell_b s dp k w) (\<lambda>x. np_set dp k w x))) dp) (\<lambda>dp.
     bindE (np_get dp (n s) (capacity s)) py_int))"

subsection \<open>\<^verbatim>\<open>solve_all\<close>\<close>

text \<open>
  The dictionary of results is the list of its entries in insertion order. The set
  of its values has one element exactly when the four numbers are equal (a NumPy
  integer and a Python integer of the same value are equal and hash alike).
\<close>

definition solve_all :: "KnapsackSolver \<Rightarrow> error + (string \<times> int) list" where
  "solve_all s =
     bindE (dfs_a s) (\<lambda>a.
     bindE (dp_a s) (\<lambda>b.
     bindE (dfs_b s) (\<lambda>c.
     bindE (dp_b s) (\<lambda>d.
       let results = [(''DFS_A'', a), (''DP_A'', b), (''DFS_B'', c), (''DP_B'', d)];
           unique_results = set (map snd results)
       in if card unique_results \<noteq> 1 then Inl (ValueError (InconsistentResults results))
          else Inr results))))"

subsection \<open>\<^verbatim>\<open>run_test_suite\<close>\<close>

text \<open>
  The demonstration harness builds a solver for each test case, calls
  \<^verbatim>\<open>solve_all\<close> and prints, for every method, its value with \<^verbatim>\<open>PASS\<close> or
  \<^verbatim>\<open>FAIL\<close>, then the consistency verdict. The printed lines are returned here: the
  flag is \<open>True\<close> for \<^verbatim>\<open>PASS\<close> and for \<^verbatim>\<open>ALL MATCH\<close>. Nothing catches an
  exception, so the first one ends the whole run.
\<close>

definition test_cases :: "(int list \<times> int list \<times> int \<times> int) list" where
  "test_cases =
     [([2, 3, 4, 5], [3, 4, 5, 6], 8, 10),
      ([1, 2, 3], [6, 10, 12], 5, 22),
      ([5, 6, 7], [10, 20, 30], 4, 0),
      ([1, 2, 3], [4, 5, 6], 0, 0),
      ([], [], 10, 0),
      ([10, 20, 30], [60, 100, 120], 50, 220),
      ([3, 4, 5], [30, 50, 60], 8, 90),
      ([2, 4, 6], [100, 1000, 10000], 6, 10000),
      ([3, 3, 3], [5, 5, 5], 6, 10)]"

type_synonym report = "(string \<times> int \<times> bool) list \<times> bool"

definition run_test_case :: "int list \<times> int list \<times> int \<times> int \<Rightarrow> error + report" where
  "run_test_case tc =
     (case tc of (ws, vs, cap, expected) \<Rightarrow>
        bindE (KnapsackSolver_init ws vs cap) (\<lambda>solver.
        bindE (solve_all solver) (\<lambda>results.
          Inr (map (\<lambda>(name, val). (name, val, val = expected)) results,
               card (set (map snd results)) = 1))))"

fun run_cases :: "(int list \<times> int list \<times> int \<times> int) list \<Rightarrow> error + report list" where
  "run_cases [] = Inr []"
| "run_cases (tc # tcs) =
     bindE (run_test_case tc) (\<lambda>out.
     bindE (run_cases tcs) (\<lambda>outs. Inr (out # outs)))"

definition run_test_suite :: "error + report list" where
  "run_test_suite = run_cases test_cases"

text \<open>What the harness prints for a test case that passes with the value \<open>e\<close>.\<close>

definition all_pass :: "int \<Rightarrow> report" where
  "all_pass e =
     ([(''DFS_A'', e, True), (''DP_A'', e, True), (''DFS_B'', e, True), (''DP_B'', e, True)],
      True)"

subsection \<open>The methods over a store of objects\<close>

text \<open>
  The definitions above give each method as a function of the solver object. To
  follow what a call does to the solver and what it leaves behind, the methods are
  given a second time as the source has them, over the state of the program: the
  solver object with its two lists, and a store that holds, each at its address,
  the dictionaries and the arrays that the methods create. A call takes the state
  and returns its result with the state as it leaves it, after an exception too; an
  object that a method has created stays in the store when the method returns.
\<close>

datatype pyobject = Dict memo | IntArray "int grid" | FloatArray "float64 grid"

record world =
  solver :: KnapsackSolver
  store :: "pyobject list"

text \<open>
  The dictionary at an address, and the assignment \<^verbatim>\<open>memo[key] = v\<close> to it.
\<close>

definition dict_at :: "world \<Rightarrow> nat \<Rightarrow> memo" where
  "dict_at w a = (case store w ! a of Dict m \<Rightarrow> m | _ \<Rightarrow> Map.empty)"

definition dict_put :: "world \<Rightarrow> nat \<Rightarrow> int \<times> int \<Rightarrow> int \<Rightarrow> world" where
  "dict_put w a key v = w\<lparr>store := (store w)[a := Dict ((dict_at w a)(key \<mapsto> v))]\<rparr>"

text \<open>
  The nested function of \<^verbatim>\<open>dfs_a\<close>, with the address of the dictionary \<^verbatim>\<open>memo\<close>:
  the fields of the solver are read from the state at the moment of the read, and the
  dictionary is looked up and assigned in the store.
\<close>

fun dfs_A_w :: "nat \<Rightarrow> nat \<Rightarrow> int \<Rightarrow> int \<Rightarrow> world \<Rightarrow> (error + int) \<times> world" where
  "dfs_A_w 0 a i c w = (Inl RecursionError, w)"
| "dfs_A_w (Suc d) a i c w =
     (if i \<ge> n (solver w) \<or> c \<le> 0 then (Inr 0, w)
      else case dict_at w a (i, c) of
        Some r \<Rightarrow> (Inr r, w)
      | None \<Rightarrow>
         (case dfs_A_w d a (i + 1) c w of
            (Inl e, w1) \<Rightarrow> (Inl e, w1)
          | (Inr skip, w1) \<Rightarrow>
             (case py_index (weights (solver w1)) i of
                Inl e \<Rightarrow> (Inl e, w1)
              | Inr wt \<Rightarrow>
                 if c \<ge> wt then
                   (case py_index (item_values (solver w1)) i of
                      Inl e \<Rightarrow> (Inl e, w1)
                    | Inr v \<Rightarrow>
                       (case py_index (weights (solver w1)) i of
                          Inl e \<Rightarrow> (Inl e, w1)
                        | Inr wt' \<Rightarrow>
                           (case dfs_A_w d a (i + 1) (c - wt') w1 of
                              (Inl e, w2) \<Rightarrow> (Inl e, w2)
                            | (Inr r, w2) \<Rightarrow>
                               (let res = max skip (v + r)
                                in (Inr res, dict_put w2 a (i, c) res)))))
                 else
                   (let res = max skip NEG
                    in (Inr res, dict_put w1 a (i, c) res)))))"

text \<open>
  \<^verbatim>\<open>memo = {}\<close> puts a new, empty dictionary at the first free address of the
  store; the method then calls its nested function.
\<close>

definition dfs_a_w :: "nat \<Rightarrow> world \<Rightarrow> (error + int) \<times> world" where
  "dfs_a_w d w =
     (let a = length (store w);
          w0 = w\<lparr>store := store w @ [Dict Map.empty]\<rparr>
      in dfs_A_w d a 0 (capacity (solver w0)) w0)"

text \<open>
  The nested function of \<^verbatim>\<open>dfs_b\<close>, and the method.
\<close>

fun dfs_B_w :: "nat \<Rightarrow> nat \<Rightarrow> int \<Rightarrow> int \<Rightarrow> world \<Rightarrow> (error + int) \<times> world" where
  "dfs_B_w 0 a k w h = (Inl RecursionError, h)"
| "dfs_B_w (Suc d) a k w h =
     (if k = 0 then (Inr 0, h)
      else case dict_at h a (k, w) of
        Some r \<Rightarrow> (Inr r, h)
      | None \<Rightarrow>
         (case dfs_B_w d a (k - 1) w h of
            (Inl e, h1) \<Rightarrow> (Inl e, h1)
          | (Inr skip, h1) \<Rightarrow>
             (case py_index (weights (solver h1)) (k - 1) of
                Inl e \<Rightarrow> (Inl e, h1)
              | Inr wt \<Rightarrow>
                 if w \<ge> wt then
                   (case py_index (item_values (solver h1)) (k - 1) of
                      Inl e \<Rightarrow> (Inl e, h1)
                    | Inr v \<Rightarrow>
                       (case py_index (weights (solver h1)) (k - 1) of
                          Inl e \<Rightarrow> (Inl e, h1)
                        | Inr wt' \<Rightarrow>
                           (case dfs_B_w d a (k - 1) (w - wt') h1 of
                              (Inl e, h2) \<Rightarrow> (Inl e, h2)
                            | (Inr r, h2) \<Rightarrow>
                               (let res = max skip (v + r)
                                in (Inr res, dict_put h2 a (k, w) res)))))
                 else
                   (let res = max skip NEG
                    in (Inr res, dict_put h1 a (k, w) res)))))"

definition dfs_b_w :: "nat \<Rightarrow> world \<Rightarrow> (error + int) \<times> world" where
  "dfs_b_w d w =
     (let a = length (store w);
          w0 = w\<lparr>store := store w @ [Dict Map.empty]\<rparr>
      in dfs_B_w d a (n (solver w0)) (capacity (solver w0)) w0)"

text \<open>
  The array at an address, and a \<^verbatim>\<open>for\<close> loop whose body acts on the state.
\<close>

definition int_array :: "world \<Rightarrow> nat \<Rightarrow> int grid" where
  "int_array w a = (case store w ! a of IntArray g \<Rightarrow> g | _ \<Rightarrow> [])"

definition float_array :: "world \<Rightarrow> nat \<Rightarrow> float64 grid" where
  "float_array w a = (case store w ! a of FloatArray g \<Rightarrow> g | _ \<Rightarrow> [])"

fun for_each_w ::
  "'i list \<Rightarrow> ('i \<Rightarrow> world \<Rightarrow> (error + unit) \<times> world) \<Rightarrow> world \<Rightarrow> (error + unit) \<times> world" where
  "for_each_w [] body w = (Inr (), w)"
| "for_each_w (x # xs) body w =
     (case body x w of
        (Inl e, w') \<Rightarrow> (Inl e, w')
      | (Inr u, w') \<Rightarrow> for_each_w xs body w')"

text \<open>
  The body of the inner loop of \<^verbatim>\<open>dp_a\<close>: the value is computed from the solver
  and the array as they are, then assigned to the cell of the array in the store.
  The method creates the array, fills its last row and runs the two loops;
  \<^verbatim>\<open>range(self.capacity + 1)\<close> is evaluated at each turn of the outer loop.
\<close>

definition assign_a :: "nat \<Rightarrow> int \<Rightarrow> int \<Rightarrow> world \<Rightarrow> (error + unit) \<times> world" where
  "assign_a a i c w =
     (case bindE (cell_a (solver w) (int_array w a) i c) (\<lambda>x. np_set (int_array w a) i c x) of
        Inl e \<Rightarrow> (Inl e, w)
      | Inr dp \<Rightarrow> (Inr (), w\<lparr>store := (store w)[a := IntArray dp]\<rparr>))"

definition dp_a_w :: "world \<Rightarrow> (error + int) \<times> world" where
  "dp_a_w w =
     (case np_full (n (solver w) + 1) (capacity (solver w) + 1) NEG of
        Inl e \<Rightarrow> (Inl e, w)
      | Inr dp \<Rightarrow>
         (let a = length (store w);
              w0 = w\<lparr>store := store w @ [IntArray dp]\<rparr>
          in case np_set_row (int_array w0 a) (n (solver w0)) 0 of
               Inl e \<Rightarrow> (Inl e, w0)
             | Inr dp1 \<Rightarrow>
                (case for_each_w (rev [0 .. n (solver w0) - 1])
                        (\<lambda>i w. for_each_w [0 .. capacity (solver w)] (assign_a a i) w)
                        (w0\<lparr>store := (store w0)[a := IntArray dp1]\<rparr>) of
                   (Inl e, w2) \<Rightarrow> (Inl e, w2)
                 | (Inr u, w2) \<Rightarrow> (np_get (int_array w2 a) 0 (capacity (solver w2)), w2))))"

text \<open>
  The same for \<^verbatim>\<open>dp_b\<close>.
\<close>

definition assign_b :: "nat \<Rightarrow> int \<Rightarrow> int \<Rightarrow> world \<Rightarrow> (error + unit) \<times> world" where
  "assign_b a k c w =
     (case bindE (cell_b (solver w) (float_array w a) k c) (\<lambda>x. np_set (float_array w a) k c x) of
        Inl e \<Rightarrow> (Inl e, w)
      | Inr dp \<Rightarrow> (Inr (), w\<lparr>store := (store w)[a := FloatArray dp]\<rparr>))"

definition dp_b_w :: "world \<Rightarrow> (error + int) \<times> world" where
  "dp_b_w w =
     (case np_full (n (solver w) + 1) (capacity (solver w) + 1) (Fin 0) of
        Inl e \<Rightarrow> (Inl e, w)
      | Inr dp \<Rightarrow>
         (let a = length (store w);
              w0 = w\<lparr>store := store w @ [FloatArray dp]\<rparr>
          in case for_each_w [1 .. n (solver w0)]
                    (\<lambda>k w. for_each_w [0 .. capacity (solver w)] (assign_b a k) w) w0 of
               (Inl e, w2) \<Rightarrow> (Inl e, w2)
             | (Inr u, w2) \<Rightarrow>
                 (bindE (np_get (float_array w2 a) (n (solver w2)) (capacity (solver w2))) py_int,
                  w2)))"

text \<open>
  A call of one of the four methods when the interpreter still allows \<open>d\<close> calls to
  the nested functions, and a sequence of calls on the same state, each exception
  caught by the caller. \<open>result_of\<close> is the result of the method as a function of
  the solver alone.
\<close>

datatype solve_method = DFS_A | DP_A | DFS_B | DP_B

fun call :: "nat \<Rightarrow> solve_method \<Rightarrow> world \<Rightarrow> (error + int) \<times> world" where
  "call d DFS_A w = dfs_a_w d w"
| "call d DP_A w = dp_a_w w"
| "call d DFS_B w = dfs_b_w d w"
| "call d DP_B w = dp_b_w w"

fun calls :: "nat \<Rightarrow> solve_method list \<Rightarrow> world \<Rightarrow> (error + int) list \<times> world" where
  "calls d [] w = ([], w)"
| "calls d (m # ms) w =
     (case call d m w of (r, w') \<Rightarrow>
        (case calls d ms w' of (rs, w'') \<Rightarrow> (r # rs, w'')))"

fun result_of :: "nat \<Rightarrow> solve_method \<Rightarrow> KnapsackSolver \<Rightarrow> error + int" where
  "result_of d DFS_A s = dfs_a_in d s"
| "result_of d DP_A s = dp_a s"
| "result_of d DFS_B s = dfs_b_in d s"
| "result_of d DP_B s = dp_b s"

section \<open>The recurrences of the specification\<close>

text \<open>
  The recurrence of representation A as the specification words it:
  \<open>f(i, c) = 0\<close> if \<open>i \<ge> n\<close> or \<open>c \<le> 0\<close>, and otherwise the maximum of
  \<open>f(i + 1, c)\<close> and, when \<open>c \<ge> weights[i]\<close>, of
  \<open>values[i] + f(i + 1, c - weights[i])\<close>.
\<close>

function f_spec :: "int list \<Rightarrow> int list \<Rightarrow> int \<Rightarrow> int \<Rightarrow> int" where
  "f_spec ws vs i c =
     (if i \<ge> int (length ws) \<or> c \<le> 0 then 0
      else if c \<ge> ws ! nat i
           then max (f_spec ws vs (i + 1) c) (vs ! nat i + f_spec ws vs (i + 1) (c - ws ! nat i))
           else f_spec ws vs (i + 1) c)"
  by pat_completeness auto
termination
  by (relation "measure (\<lambda>(ws, vs, i, c). nat (int (length ws) - i))") auto

declare f_spec.simps [simp del]


text \<open>
  The recurrence of representation B as the specification words it: \<open>g(0, w) = 0\<close>,
  and for \<open>k \<ge> 1\<close> the maximum of \<open>g(k - 1, w)\<close> and, when
  \<open>w \<ge> weights[k - 1]\<close>, of \<open>values[k - 1] + g(k - 1, w - weights[k - 1])\<close>.
\<close>

function g_spec :: "int list \<Rightarrow> int list \<Rightarrow> int \<Rightarrow> int \<Rightarrow> int" where
  "g_spec ws vs k w =
     (if k \<le> 0 then 0
      else if w \<ge> ws ! nat (k - 1)
           then max (g_spec ws vs (k - 1) w)
                  (vs ! nat (k - 1) + g_spec ws vs (k - 1) (w - ws ! nat (k - 1)))
           else g_spec ws vs (k - 1) w)"
  by pat_completeness auto
termination
  by (relation "measure (\<lambda>(ws, vs, k, w). nat k)") auto

declare g_spec.simps [simp del]


text \<open>A memo table is sound for a recurrence when every entry is the recurrence's value.\<close>

definition memo_ok :: "(int \<Rightarrow> int \<Rightarrow> int) \<Rightarrow> memo \<Rightarrow> bool" where
  "memo_ok F m = (\<forall>i c r. m (i, c) = Some r \<longrightarrow> r = F i c)"


declare dfs_A.simps [simp del]
declare dfs_B.simps [simp del]
declare dfs_A_w.simps [simp del]
declare dfs_B_w.simps [simp del]

section \<open>Verification\<close>

subsection \<open>The consistency check\<close>

lemma card_four_values: "card {a, b, c, d :: int} = Suc 0 \<longleftrightarrow> a = b \<and> b = c \<and> c = d"
  by (auto simp: card_insert_if)

lemma solve_all_values:
  assumes "dfs_a s = Inr a" and "dp_a s = Inr b" and "dfs_b s = Inr c" and "dp_b s = Inr d"
  shows "solve_all s =
    (if card {a, b, c, d} = Suc 0
     then Inr [(''DFS_A'', a), (''DP_A'', b), (''DFS_B'', c), (''DP_B'', d)]
     else Inl (ValueError (InconsistentResults
            [(''DFS_A'', a), (''DP_A'', b), (''DFS_B'', c), (''DP_B'', d)])))"
  using assms by (simp add: solve_all_def bindE_def Let_def)

text \<open>
  Claim C4. When the four methods return the values \<open>a\<close>, \<open>b\<close>, \<open>c\<close>, \<open>d\<close>,
  \<^verbatim>\<open>solve_all\<close> returns the dictionary of the four entries if the values are all
  equal, and otherwise raises its \<^verbatim>\<open>ValueError\<close>, whose message carries the four
  entries: the error is raised exactly when two of the values differ.
\<close>

theorem solve_all_consistency:
  assumes "dfs_a s = Inr a" and "dp_a s = Inr b" and "dfs_b s = Inr c" and "dp_b s = Inr d"
  shows "solve_all s =
    (if a = b \<and> b = c \<and> c = d
     then Inr [(''DFS_A'', a), (''DP_A'', b), (''DFS_B'', c), (''DP_B'', d)]
     else Inl (ValueError (InconsistentResults
            [(''DFS_A'', a), (''DP_A'', b), (''DFS_B'', c), (''DP_B'', d)])))"
  using solve_all_values [OF assms] by (simp add: card_four_values)

lemma basic_dfs_a:
  "dfs_a \<lparr>weights = [2, 3, 4, 5], item_values = [3, 4, 5, 6], capacity = 8, n = 4\<rparr> = Inr 10"
  by code_simp

lemma basic_dp_a:
  "dp_a \<lparr>weights = [2, 3, 4, 5], item_values = [3, 4, 5, 6], capacity = 8, n = 4\<rparr> = Inr 10"
  by code_simp

lemma basic_dfs_b:
  "dfs_b \<lparr>weights = [2, 3, 4, 5], item_values = [3, 4, 5, 6], capacity = 8, n = 4\<rparr> = Inr 10"
  by code_simp

lemma basic_dp_b:
  "dp_b \<lparr>weights = [2, 3, 4, 5], item_values = [3, 4, 5, 6], capacity = 8, n = 4\<rparr> = Inr 10"
  by code_simp

lemma zero_weight_dfs_a:
  "dfs_a \<lparr>weights = [0], item_values = [5], capacity = 0, n = 1\<rparr> = Inr 0"
  by code_simp

lemma zero_weight_dp_a:
  "dp_a \<lparr>weights = [0], item_values = [5], capacity = 0, n = 1\<rparr> = Inr 5"
  by code_simp

lemma zero_weight_dfs_b:
  "dfs_b \<lparr>weights = [0], item_values = [5], capacity = 0, n = 1\<rparr> = Inr 5"
  by code_simp

lemma zero_weight_dp_b:
  "dp_b \<lparr>weights = [0], item_values = [5], capacity = 0, n = 1\<rparr> = Inr 5"
  by code_simp

theorem solve_all_consistency_witness:
  "solve_all \<lparr>weights = [2, 3, 4, 5], item_values = [3, 4, 5, 6], capacity = 8, n = 4\<rparr> =
     Inr [(''DFS_A'', 10), (''DP_A'', 10), (''DFS_B'', 10), (''DP_B'', 10)]
   \<and> solve_all \<lparr>weights = [0], item_values = [5], capacity = 0, n = 1\<rparr> =
     Inl (ValueError (InconsistentResults
       [(''DFS_A'', 0), (''DP_A'', 5), (''DFS_B'', 5), (''DP_B'', 5)]))"
  using solve_all_consistency [OF basic_dfs_a basic_dp_a basic_dfs_b basic_dp_b]
    solve_all_consistency [OF zero_weight_dfs_a zero_weight_dp_a zero_weight_dfs_b zero_weight_dp_b]
  by simp

subsection \<open>Construction\<close>

text \<open>
  Claim C5, as the code has it. The constructor never fails: whatever the two lists
  and the capacity, of equal lengths or not, it raises nothing and returns the
  instance that holds them, with \<^verbatim>\<open>n\<close> the length of \<^verbatim>\<open>weights\<close>. A method called
  on what the constructor returns therefore runs on that instance: an instance whose
  lists differ in length does reach the solvers.
\<close>

theorem init_always_succeeds:
  "KnapsackSolver_init ws vs cap =
     Inr \<lparr>weights = ws, item_values = vs, capacity = cap, n = int (length ws)\<rparr>
   \<and> (\<forall>e. KnapsackSolver_init ws vs cap \<noteq> Inl e)
   \<and> bindE (KnapsackSolver_init ws vs cap) dfs_a =
       dfs_a \<lparr>weights = ws, item_values = vs, capacity = cap, n = int (length ws)\<rparr>
   \<and> bindE (KnapsackSolver_init ws vs cap) dp_a =
       dp_a \<lparr>weights = ws, item_values = vs, capacity = cap, n = int (length ws)\<rparr>
   \<and> bindE (KnapsackSolver_init ws vs cap) dfs_b =
       dfs_b \<lparr>weights = ws, item_values = vs, capacity = cap, n = int (length ws)\<rparr>
   \<and> bindE (KnapsackSolver_init ws vs cap) dp_b =
       dp_b \<lparr>weights = ws, item_values = vs, capacity = cap, n = int (length ws)\<rparr>
   \<and> bindE (KnapsackSolver_init ws vs cap) solve_all =
       solve_all \<lparr>weights = ws, item_values = vs, capacity = cap, n = int (length ws)\<rparr>"
  by (simp add: KnapsackSolver_init_def bindE_def)

lemma short_values_dfs_a:
  "dfs_a \<lparr>weights = [1, 2], item_values = [3], capacity = 5, n = 2\<rparr> = Inl IndexError"
  by code_simp

lemma short_values_dp_a:
  "dp_a \<lparr>weights = [1, 2], item_values = [3], capacity = 5, n = 2\<rparr> = Inl IndexError"
  by code_simp

lemma long_values_solve_all:
  "solve_all \<lparr>weights = [1], item_values = [3, 9], capacity = 5, n = 1\<rparr> =
     Inr [(''DFS_A'', 3), (''DP_A'', 3), (''DFS_B'', 3), (''DP_B'', 3)]"
  by code_simp

text \<open>
  The claim as the specification states it fails: with two weights and one value the
  constructor returns an instance, and the instance reaches the solvers, which raise
  \<^verbatim>\<open>IndexError\<close> at the missing value; with one weight and two values the four
  methods run to the end and agree, the second value never read.
\<close>

theorem init_mismatch_counterexample:
  "length [1, 2 :: int] \<noteq> length [3 :: int]
   \<and> KnapsackSolver_init [1, 2] [3] 5 =
       Inr \<lparr>weights = [1, 2], item_values = [3], capacity = 5, n = 2\<rparr>
   \<and> dfs_a \<lparr>weights = [1, 2], item_values = [3], capacity = 5, n = 2\<rparr> = Inl IndexError
   \<and> dp_a \<lparr>weights = [1, 2], item_values = [3], capacity = 5, n = 2\<rparr> = Inl IndexError
   \<and> KnapsackSolver_init [1] [3, 9] 5 =
       Inr \<lparr>weights = [1], item_values = [3, 9], capacity = 5, n = 1\<rparr>
   \<and> solve_all \<lparr>weights = [1], item_values = [3, 9], capacity = 5, n = 1\<rparr> =
       Inr [(''DFS_A'', 3), (''DP_A'', 3), (''DFS_B'', 3), (''DP_B'', 3)]"
  by (simp add: KnapsackSolver_init_def short_values_dfs_a short_values_dp_a
        long_values_solve_all)

subsection \<open>The nine scenarios of the test suite\<close>

text \<open>
  Each method is run on each test case of \<^verbatim>\<open>run_test_suite\<close>: the solver is built
  by the constructor and the method called on it.
\<close>

lemma scenario_1_dfs_a:
  "bindE (KnapsackSolver_init [2, 3, 4, 5] [3, 4, 5, 6] 8) dfs_a = Inr 10"
  by code_simp

lemma scenario_1_dp_a:
  "bindE (KnapsackSolver_init [2, 3, 4, 5] [3, 4, 5, 6] 8) dp_a = Inr 10"
  by code_simp

lemma scenario_1_dfs_b:
  "bindE (KnapsackSolver_init [2, 3, 4, 5] [3, 4, 5, 6] 8) dfs_b = Inr 10"
  by code_simp

lemma scenario_1_dp_b:
  "bindE (KnapsackSolver_init [2, 3, 4, 5] [3, 4, 5, 6] 8) dp_b = Inr 10"
  by code_simp

lemma scenario_1_report:
  "run_test_case ([2, 3, 4, 5], [3, 4, 5, 6], 8, 10) = Inr (all_pass 10)"
proof -
  let ?s = "\<lparr>weights = [2, 3, 4, 5], item_values = [3, 4, 5, 6], capacity = 8, n = 4\<rparr>"
  have a: "dfs_a ?s = Inr 10"
    using scenario_1_dfs_a by (simp add: KnapsackSolver_init_def bindE_def)
  have b: "dp_a ?s = Inr 10"
    using scenario_1_dp_a by (simp add: KnapsackSolver_init_def bindE_def)
  have c: "dfs_b ?s = Inr 10"
    using scenario_1_dfs_b by (simp add: KnapsackSolver_init_def bindE_def)
  have d: "dp_b ?s = Inr 10"
    using scenario_1_dp_b by (simp add: KnapsackSolver_init_def bindE_def)
  show ?thesis
    using solve_all_values [OF a b c d]
    by (simp add: run_test_case_def KnapsackSolver_init_def bindE_def all_pass_def)
qed

lemma scenario_2_dfs_a:
  "bindE (KnapsackSolver_init [1, 2, 3] [6, 10, 12] 5) dfs_a = Inr 22"
  by code_simp

lemma scenario_2_dp_a:
  "bindE (KnapsackSolver_init [1, 2, 3] [6, 10, 12] 5) dp_a = Inr 22"
  by code_simp

lemma scenario_2_dfs_b:
  "bindE (KnapsackSolver_init [1, 2, 3] [6, 10, 12] 5) dfs_b = Inr 22"
  by code_simp

lemma scenario_2_dp_b:
  "bindE (KnapsackSolver_init [1, 2, 3] [6, 10, 12] 5) dp_b = Inr 22"
  by code_simp

lemma scenario_2_report:
  "run_test_case ([1, 2, 3], [6, 10, 12], 5, 22) = Inr (all_pass 22)"
proof -
  let ?s = "\<lparr>weights = [1, 2, 3], item_values = [6, 10, 12], capacity = 5, n = 3\<rparr>"
  have a: "dfs_a ?s = Inr 22"
    using scenario_2_dfs_a by (simp add: KnapsackSolver_init_def bindE_def)
  have b: "dp_a ?s = Inr 22"
    using scenario_2_dp_a by (simp add: KnapsackSolver_init_def bindE_def)
  have c: "dfs_b ?s = Inr 22"
    using scenario_2_dfs_b by (simp add: KnapsackSolver_init_def bindE_def)
  have d: "dp_b ?s = Inr 22"
    using scenario_2_dp_b by (simp add: KnapsackSolver_init_def bindE_def)
  show ?thesis
    using solve_all_values [OF a b c d]
    by (simp add: run_test_case_def KnapsackSolver_init_def bindE_def all_pass_def)
qed

lemma scenario_3_dfs_a:
  "bindE (KnapsackSolver_init [5, 6, 7] [10, 20, 30] 4) dfs_a = Inr 0"
  by code_simp

lemma scenario_3_dp_a:
  "bindE (KnapsackSolver_init [5, 6, 7] [10, 20, 30] 4) dp_a = Inr 0"
  by code_simp

lemma scenario_3_dfs_b:
  "bindE (KnapsackSolver_init [5, 6, 7] [10, 20, 30] 4) dfs_b = Inr 0"
  by code_simp

lemma scenario_3_dp_b:
  "bindE (KnapsackSolver_init [5, 6, 7] [10, 20, 30] 4) dp_b = Inr 0"
  by code_simp

lemma scenario_3_report:
  "run_test_case ([5, 6, 7], [10, 20, 30], 4, 0) = Inr (all_pass 0)"
proof -
  let ?s = "\<lparr>weights = [5, 6, 7], item_values = [10, 20, 30], capacity = 4, n = 3\<rparr>"
  have a: "dfs_a ?s = Inr 0"
    using scenario_3_dfs_a by (simp add: KnapsackSolver_init_def bindE_def)
  have b: "dp_a ?s = Inr 0"
    using scenario_3_dp_a by (simp add: KnapsackSolver_init_def bindE_def)
  have c: "dfs_b ?s = Inr 0"
    using scenario_3_dfs_b by (simp add: KnapsackSolver_init_def bindE_def)
  have d: "dp_b ?s = Inr 0"
    using scenario_3_dp_b by (simp add: KnapsackSolver_init_def bindE_def)
  show ?thesis
    using solve_all_values [OF a b c d]
    by (simp add: run_test_case_def KnapsackSolver_init_def bindE_def all_pass_def)
qed

lemma scenario_4_dfs_a:
  "bindE (KnapsackSolver_init [1, 2, 3] [4, 5, 6] 0) dfs_a = Inr 0"
  by code_simp

lemma scenario_4_dp_a:
  "bindE (KnapsackSolver_init [1, 2, 3] [4, 5, 6] 0) dp_a = Inr 0"
  by code_simp

lemma scenario_4_dfs_b:
  "bindE (KnapsackSolver_init [1, 2, 3] [4, 5, 6] 0) dfs_b = Inr 0"
  by code_simp

lemma scenario_4_dp_b:
  "bindE (KnapsackSolver_init [1, 2, 3] [4, 5, 6] 0) dp_b = Inr 0"
  by code_simp

lemma scenario_4_report:
  "run_test_case ([1, 2, 3], [4, 5, 6], 0, 0) = Inr (all_pass 0)"
proof -
  let ?s = "\<lparr>weights = [1, 2, 3], item_values = [4, 5, 6], capacity = 0, n = 3\<rparr>"
  have a: "dfs_a ?s = Inr 0"
    using scenario_4_dfs_a by (simp add: KnapsackSolver_init_def bindE_def)
  have b: "dp_a ?s = Inr 0"
    using scenario_4_dp_a by (simp add: KnapsackSolver_init_def bindE_def)
  have c: "dfs_b ?s = Inr 0"
    using scenario_4_dfs_b by (simp add: KnapsackSolver_init_def bindE_def)
  have d: "dp_b ?s = Inr 0"
    using scenario_4_dp_b by (simp add: KnapsackSolver_init_def bindE_def)
  show ?thesis
    using solve_all_values [OF a b c d]
    by (simp add: run_test_case_def KnapsackSolver_init_def bindE_def all_pass_def)
qed

lemma scenario_5_dfs_a:
  "bindE (KnapsackSolver_init [] [] 10) dfs_a = Inr 0"
  by code_simp

lemma scenario_5_dp_a:
  "bindE (KnapsackSolver_init [] [] 10) dp_a = Inr 0"
  by code_simp

lemma scenario_5_dfs_b:
  "bindE (KnapsackSolver_init [] [] 10) dfs_b = Inr 0"
  by code_simp

lemma scenario_5_dp_b:
  "bindE (KnapsackSolver_init [] [] 10) dp_b = Inr 0"
  by code_simp

lemma scenario_5_report:
  "run_test_case ([], [], 10, 0) = Inr (all_pass 0)"
proof -
  let ?s = "\<lparr>weights = [], item_values = [], capacity = 10, n = 0\<rparr>"
  have a: "dfs_a ?s = Inr 0"
    using scenario_5_dfs_a by (simp add: KnapsackSolver_init_def bindE_def)
  have b: "dp_a ?s = Inr 0"
    using scenario_5_dp_a by (simp add: KnapsackSolver_init_def bindE_def)
  have c: "dfs_b ?s = Inr 0"
    using scenario_5_dfs_b by (simp add: KnapsackSolver_init_def bindE_def)
  have d: "dp_b ?s = Inr 0"
    using scenario_5_dp_b by (simp add: KnapsackSolver_init_def bindE_def)
  show ?thesis
    using solve_all_values [OF a b c d]
    by (simp add: run_test_case_def KnapsackSolver_init_def bindE_def all_pass_def)
qed

lemma scenario_6_dfs_a:
  "bindE (KnapsackSolver_init [10, 20, 30] [60, 100, 120] 50) dfs_a = Inr 220"
  by code_simp

lemma scenario_6_dp_a:
  "bindE (KnapsackSolver_init [10, 20, 30] [60, 100, 120] 50) dp_a = Inr 220"
  by code_simp

lemma scenario_6_dfs_b:
  "bindE (KnapsackSolver_init [10, 20, 30] [60, 100, 120] 50) dfs_b = Inr 220"
  by code_simp

lemma scenario_6_dp_b:
  "bindE (KnapsackSolver_init [10, 20, 30] [60, 100, 120] 50) dp_b = Inr 220"
  by code_simp

lemma scenario_6_report:
  "run_test_case ([10, 20, 30], [60, 100, 120], 50, 220) = Inr (all_pass 220)"
proof -
  let ?s = "\<lparr>weights = [10, 20, 30], item_values = [60, 100, 120], capacity = 50, n = 3\<rparr>"
  have a: "dfs_a ?s = Inr 220"
    using scenario_6_dfs_a by (simp add: KnapsackSolver_init_def bindE_def)
  have b: "dp_a ?s = Inr 220"
    using scenario_6_dp_a by (simp add: KnapsackSolver_init_def bindE_def)
  have c: "dfs_b ?s = Inr 220"
    using scenario_6_dfs_b by (simp add: KnapsackSolver_init_def bindE_def)
  have d: "dp_b ?s = Inr 220"
    using scenario_6_dp_b by (simp add: KnapsackSolver_init_def bindE_def)
  show ?thesis
    using solve_all_values [OF a b c d]
    by (simp add: run_test_case_def KnapsackSolver_init_def bindE_def all_pass_def)
qed

lemma scenario_7_dfs_a:
  "bindE (KnapsackSolver_init [3, 4, 5] [30, 50, 60] 8) dfs_a = Inr 90"
  by code_simp

lemma scenario_7_dp_a:
  "bindE (KnapsackSolver_init [3, 4, 5] [30, 50, 60] 8) dp_a = Inr 90"
  by code_simp

lemma scenario_7_dfs_b:
  "bindE (KnapsackSolver_init [3, 4, 5] [30, 50, 60] 8) dfs_b = Inr 90"
  by code_simp

lemma scenario_7_dp_b:
  "bindE (KnapsackSolver_init [3, 4, 5] [30, 50, 60] 8) dp_b = Inr 90"
  by code_simp

lemma scenario_7_report:
  "run_test_case ([3, 4, 5], [30, 50, 60], 8, 90) = Inr (all_pass 90)"
proof -
  let ?s = "\<lparr>weights = [3, 4, 5], item_values = [30, 50, 60], capacity = 8, n = 3\<rparr>"
  have a: "dfs_a ?s = Inr 90"
    using scenario_7_dfs_a by (simp add: KnapsackSolver_init_def bindE_def)
  have b: "dp_a ?s = Inr 90"
    using scenario_7_dp_a by (simp add: KnapsackSolver_init_def bindE_def)
  have c: "dfs_b ?s = Inr 90"
    using scenario_7_dfs_b by (simp add: KnapsackSolver_init_def bindE_def)
  have d: "dp_b ?s = Inr 90"
    using scenario_7_dp_b by (simp add: KnapsackSolver_init_def bindE_def)
  show ?thesis
    using solve_all_values [OF a b c d]
    by (simp add: run_test_case_def KnapsackSolver_init_def bindE_def all_pass_def)
qed

lemma scenario_8_dfs_a:
  "bindE (KnapsackSolver_init [2, 4, 6] [100, 1000, 10000] 6) dfs_a = Inr 10000"
  by code_simp

lemma scenario_8_dp_a:
  "bindE (KnapsackSolver_init [2, 4, 6] [100, 1000, 10000] 6) dp_a = Inr 10000"
  by code_simp

lemma scenario_8_dfs_b:
  "bindE (KnapsackSolver_init [2, 4, 6] [100, 1000, 10000] 6) dfs_b = Inr 10000"
  by code_simp

lemma scenario_8_dp_b:
  "bindE (KnapsackSolver_init [2, 4, 6] [100, 1000, 10000] 6) dp_b = Inr 10000"
  by code_simp

lemma scenario_8_report:
  "run_test_case ([2, 4, 6], [100, 1000, 10000], 6, 10000) = Inr (all_pass 10000)"
proof -
  let ?s = "\<lparr>weights = [2, 4, 6], item_values = [100, 1000, 10000], capacity = 6, n = 3\<rparr>"
  have a: "dfs_a ?s = Inr 10000"
    using scenario_8_dfs_a by (simp add: KnapsackSolver_init_def bindE_def)
  have b: "dp_a ?s = Inr 10000"
    using scenario_8_dp_a by (simp add: KnapsackSolver_init_def bindE_def)
  have c: "dfs_b ?s = Inr 10000"
    using scenario_8_dfs_b by (simp add: KnapsackSolver_init_def bindE_def)
  have d: "dp_b ?s = Inr 10000"
    using scenario_8_dp_b by (simp add: KnapsackSolver_init_def bindE_def)
  show ?thesis
    using solve_all_values [OF a b c d]
    by (simp add: run_test_case_def KnapsackSolver_init_def bindE_def all_pass_def)
qed

lemma scenario_9_dfs_a:
  "bindE (KnapsackSolver_init [3, 3, 3] [5, 5, 5] 6) dfs_a = Inr 10"
  by code_simp

lemma scenario_9_dp_a:
  "bindE (KnapsackSolver_init [3, 3, 3] [5, 5, 5] 6) dp_a = Inr 10"
  by code_simp

lemma scenario_9_dfs_b:
  "bindE (KnapsackSolver_init [3, 3, 3] [5, 5, 5] 6) dfs_b = Inr 10"
  by code_simp

lemma scenario_9_dp_b:
  "bindE (KnapsackSolver_init [3, 3, 3] [5, 5, 5] 6) dp_b = Inr 10"
  by code_simp

lemma scenario_9_report:
  "run_test_case ([3, 3, 3], [5, 5, 5], 6, 10) = Inr (all_pass 10)"
proof -
  let ?s = "\<lparr>weights = [3, 3, 3], item_values = [5, 5, 5], capacity = 6, n = 3\<rparr>"
  have a: "dfs_a ?s = Inr 10"
    using scenario_9_dfs_a by (simp add: KnapsackSolver_init_def bindE_def)
  have b: "dp_a ?s = Inr 10"
    using scenario_9_dp_a by (simp add: KnapsackSolver_init_def bindE_def)
  have c: "dfs_b ?s = Inr 10"
    using scenario_9_dfs_b by (simp add: KnapsackSolver_init_def bindE_def)
  have d: "dp_b ?s = Inr 10"
    using scenario_9_dp_b by (simp add: KnapsackSolver_init_def bindE_def)
  show ?thesis
    using solve_all_values [OF a b c d]
    by (simp add: run_test_case_def KnapsackSolver_init_def bindE_def all_pass_def)
qed

text \<open>
  Claim C7. On each of the nine scenarios every one of the four methods returns the
  expected value, and the harness reports a pass for every method and a consistent
  result for every scenario.
\<close>

theorem test_suite_passes:
  "bindE (KnapsackSolver_init [2, 3, 4, 5] [3, 4, 5, 6] 8) dfs_a = Inr 10
   \<and> bindE (KnapsackSolver_init [2, 3, 4, 5] [3, 4, 5, 6] 8) dp_a = Inr 10
   \<and> bindE (KnapsackSolver_init [2, 3, 4, 5] [3, 4, 5, 6] 8) dfs_b = Inr 10
   \<and> bindE (KnapsackSolver_init [2, 3, 4, 5] [3, 4, 5, 6] 8) dp_b = Inr 10
   \<and> bindE (KnapsackSolver_init [1, 2, 3] [6, 10, 12] 5) dfs_a = Inr 22
   \<and> bindE (KnapsackSolver_init [1, 2, 3] [6, 10, 12] 5) dp_a = Inr 22
   \<and> bindE (KnapsackSolver_init [1, 2, 3] [6, 10, 12] 5) dfs_b = Inr 22
   \<and> bindE (KnapsackSolver_init [1, 2, 3] [6, 10, 12] 5) dp_b = Inr 22
   \<and> bindE (KnapsackSolver_init [5, 6, 7] [10, 20, 30] 4) dfs_a = Inr 0
   \<and> bindE (KnapsackSolver_init [5, 6, 7] [10, 20, 30] 4) dp_a = Inr 0
   \<and> bindE (KnapsackSolver_init [5, 6, 7] [10, 20, 30] 4) dfs_b = Inr 0
   \<and> bindE (KnapsackSolver_init [5, 6, 7] [10, 20, 30] 4) dp_b = Inr 0
   \<and> bindE (KnapsackSolver_init [1, 2, 3] [4, 5, 6] 0) dfs_a = Inr 0
   \<and> bindE (KnapsackSolver_init [1, 2, 3] [4, 5, 6] 0) dp_a = Inr 0
   \<and> bindE (KnapsackSolver_init [1, 2, 3] [4, 5, 6] 0) dfs_b = Inr 0
   \<and> bindE (KnapsackSolver_init [1, 2, 3] [4, 5, 6] 0) dp_b = Inr 0
   \<and> bindE (KnapsackSolver_init [] [] 10) dfs_a = Inr 0
   \<and> bindE (KnapsackSolver_init [] [] 10) dp_a = Inr 0
   \<and> bindE (KnapsackSolver_init [] [] 10) dfs_b = Inr 0
   \<and> bindE (KnapsackSolver_init [] [] 10) dp_b = Inr 0
   \<and> bindE (KnapsackSolver_init [10, 20, 30] [60, 100, 120] 50) dfs_a = Inr 220
   \<and> bindE (KnapsackSolver_init [10, 20, 30] [60, 100, 120] 50) dp_a = Inr 220
   \<and> bindE (KnapsackSolver_init [10, 20, 30] [60, 100, 120] 50) dfs_b = Inr 220
   \<and> bindE (KnapsackSolver_init [10, 20, 30] [60, 100, 120] 50) dp_b = Inr 220
   \<and> bindE (KnapsackSolver_init [3, 4, 5] [30, 50, 60] 8) dfs_a = Inr 90
   \<and> bindE (KnapsackSolver_init [3, 4, 5] [30, 50, 60] 8) dp_a = Inr 90
   \<and> bindE (KnapsackSolver_init [3, 4, 5] [30, 50, 60] 8) dfs_b = Inr 90
   \<and> bindE (KnapsackSolver_init [3, 4, 5] [30, 50, 60] 8) dp_b = Inr 90
   \<and> bindE (KnapsackSolver_init [2, 4, 6] [100, 1000, 10000] 6) dfs_a = Inr 10000
   \<and> bindE (KnapsackSolver_init [2, 4, 6] [100, 1000, 10000] 6) dp_a = Inr 10000
   \<and> bindE (KnapsackSolver_init [2, 4, 6] [100, 1000, 10000] 6) dfs_b = Inr 10000
   \<and> bindE (KnapsackSolver_init [2, 4, 6] [100, 1000, 10000] 6) dp_b = Inr 10000
   \<and> bindE (KnapsackSolver_init [3, 3, 3] [5, 5, 5] 6) dfs_a = Inr 10
   \<and> bindE (KnapsackSolver_init [3, 3, 3] [5, 5, 5] 6) dp_a = Inr 10
   \<and> bindE (KnapsackSolver_init [3, 3, 3] [5, 5, 5] 6) dfs_b = Inr 10
   \<and> bindE (KnapsackSolver_init [3, 3, 3] [5, 5, 5] 6) dp_b = Inr 10
   \<and> run_test_suite = Inr (map all_pass [10, 22, 0, 0, 0, 220, 90, 10000, 10])"
proof -
  have suite: "run_test_suite = Inr (map all_pass [10, 22, 0, 0, 0, 220, 90, 10000, 10])"
    by (simp add: run_test_suite_def test_cases_def bindE_def
          scenario_1_report scenario_2_report scenario_3_report scenario_4_report scenario_5_report scenario_6_report scenario_7_report scenario_8_report scenario_9_report)
  show ?thesis
    by (simp only: scenario_1_dfs_a scenario_1_dp_a scenario_1_dfs_b scenario_1_dp_b scenario_2_dfs_a scenario_2_dp_a scenario_2_dfs_b scenario_2_dp_b scenario_3_dfs_a scenario_3_dp_a scenario_3_dfs_b scenario_3_dp_b scenario_4_dfs_a scenario_4_dp_a scenario_4_dfs_b scenario_4_dp_b scenario_5_dfs_a scenario_5_dp_a scenario_5_dfs_b scenario_5_dp_b scenario_6_dfs_a scenario_6_dp_a scenario_6_dfs_b scenario_6_dp_b scenario_7_dfs_a scenario_7_dp_a scenario_7_dfs_b scenario_7_dp_b scenario_8_dfs_a scenario_8_dp_a scenario_8_dfs_b scenario_8_dp_b scenario_9_dfs_a scenario_9_dp_a scenario_9_dfs_b scenario_9_dp_b
          suite simp_thms)
qed

subsection \<open>Items of weight zero\<close>

lemma zero_weight_solve_all:
  "solve_all \<lparr>weights = [0], item_values = [5], capacity = 0, n = 1\<rparr> =
     Inl (ValueError (InconsistentResults
       [(''DFS_A'', 0), (''DP_A'', 5), (''DFS_B'', 5), (''DP_B'', 5)]))"
  using solve_all_values [OF zero_weight_dfs_a zero_weight_dp_a zero_weight_dfs_b zero_weight_dp_b]
  by simp

text \<open>
  Claim C1 at the instance with the single item of weight 0 and value 5 and capacity 0.
  The base case \<^verbatim>\<open>c <= 0\<close> of \<^verbatim>\<open>dfs_a\<close> returns 0 before the item is looked at;
  the three other methods take the item and return 5, and \<^verbatim>\<open>solve_all\<close> raises its
  error on this valid instance.
\<close>

theorem methods_disagree_on_zero_weight:
  "KnapsackSolver_init [0] [5] 0 =
     Inr \<lparr>weights = [0], item_values = [5], capacity = 0, n = 1\<rparr>
   \<and> dfs_a \<lparr>weights = [0], item_values = [5], capacity = 0, n = 1\<rparr> = Inr 0
   \<and> dp_a \<lparr>weights = [0], item_values = [5], capacity = 0, n = 1\<rparr> = Inr 5
   \<and> dfs_b \<lparr>weights = [0], item_values = [5], capacity = 0, n = 1\<rparr> = Inr 5
   \<and> dp_b \<lparr>weights = [0], item_values = [5], capacity = 0, n = 1\<rparr> = Inr 5
   \<and> solve_all \<lparr>weights = [0], item_values = [5], capacity = 0, n = 1\<rparr> =
       Inl (ValueError (InconsistentResults
         [(''DFS_A'', 0), (''DP_A'', 5), (''DFS_B'', 5), (''DP_B'', 5)]))"
  by (simp add: KnapsackSolver_init_def zero_weight_dfs_a zero_weight_dp_a zero_weight_dfs_b
        zero_weight_dp_b zero_weight_solve_all)

lemma free_item_dfs_a:
  "dfs_a \<lparr>weights = [0, 1], item_values = [5, 7], capacity = 0, n = 2\<rparr> = Inr 0"
  by code_simp

lemma free_item_dp_a:
  "dp_a \<lparr>weights = [0, 1], item_values = [5, 7], capacity = 0, n = 2\<rparr> = Inr 5"
  by code_simp

lemma free_item_dfs_b:
  "dfs_b \<lparr>weights = [0, 1], item_values = [5, 7], capacity = 0, n = 2\<rparr> = Inr 5"
  by code_simp

lemma free_item_dp_b:
  "dp_b \<lparr>weights = [0, 1], item_values = [5, 7], capacity = 0, n = 2\<rparr> = Inr 5"
  by code_simp

lemma exhausted_dfs_a:
  "dfs_a \<lparr>weights = [1, 0], item_values = [1, 5], capacity = 1, n = 2\<rparr> = Inr 5"
  by code_simp

lemma exhausted_dp_a:
  "dp_a \<lparr>weights = [1, 0], item_values = [1, 5], capacity = 1, n = 2\<rparr> = Inr 6"
  by code_simp

lemma exhausted_dfs_b:
  "dfs_b \<lparr>weights = [1, 0], item_values = [1, 5], capacity = 1, n = 2\<rparr> = Inr 6"
  by code_simp

lemma exhausted_dp_b:
  "dp_b \<lparr>weights = [1, 0], item_values = [1, 5], capacity = 1, n = 2\<rparr> = Inr 6"
  by code_simp

text \<open>
  Claim C2 at two instances. With weights 0 and 1, values 5 and 7 and capacity 0 the
  weight-0 items are worth 5: \<^verbatim>\<open>dp_a\<close>, \<^verbatim>\<open>dfs_b\<close> and \<^verbatim>\<open>dp_b\<close> return 5 and
  \<^verbatim>\<open>dfs_a\<close> returns 0. With weights 1 and 0, values 1 and 5 and capacity 1 both items
  fit: the three return 6 and \<^verbatim>\<open>dfs_a\<close> returns 5, the free item being lost once the
  first item has used the capacity up.
\<close>

theorem dfs_a_drops_zero_weight_items:
  "dfs_a \<lparr>weights = [0, 1], item_values = [5, 7], capacity = 0, n = 2\<rparr> = Inr 0
   \<and> dp_a \<lparr>weights = [0, 1], item_values = [5, 7], capacity = 0, n = 2\<rparr> = Inr 5
   \<and> dfs_b \<lparr>weights = [0, 1], item_values = [5, 7], capacity = 0, n = 2\<rparr> = Inr 5
   \<and> dp_b \<lparr>weights = [0, 1], item_values = [5, 7], capacity = 0, n = 2\<rparr> = Inr 5
   \<and> dfs_a \<lparr>weights = [1, 0], item_values = [1, 5], capacity = 1, n = 2\<rparr> = Inr 5
   \<and> dp_a \<lparr>weights = [1, 0], item_values = [1, 5], capacity = 1, n = 2\<rparr> = Inr 6
   \<and> dfs_b \<lparr>weights = [1, 0], item_values = [1, 5], capacity = 1, n = 2\<rparr> = Inr 6
   \<and> dp_b \<lparr>weights = [1, 0], item_values = [1, 5], capacity = 1, n = 2\<rparr> = Inr 6"
  by (simp add: free_item_dfs_a free_item_dp_a free_item_dfs_b free_item_dp_b
        exhausted_dfs_a exhausted_dp_a exhausted_dfs_b exhausted_dp_b)

subsection \<open>The memoised recursions\<close>

lemma f_spec_nonneg: "0 \<le> f_spec ws vs i c"
proof (induction ws vs i c rule: f_spec.induct)
  case (1 ws vs i c)
  then show ?case
    by (subst f_spec.simps) (auto simp: max_def)
qed

lemma py_index_nth:
  "0 \<le> i \<Longrightarrow> i < int (length xs) \<Longrightarrow> py_index xs i = Inr (xs ! nat i)"
  by (simp add: py_index_def norm_index_def bindE_def)

lemma NEG_less: "0 \<le> x \<Longrightarrow> max x NEG = x"
  by (simp add: NEG_def)

lemma dfs_frames_Suc: "dfs_frames = Suc 994"
  by (simp add: dfs_frames_def recursion_limit_def frames_in_use_def)

text \<open>
  With enough calls left for the items that remain, the nested function of
  \<^verbatim>\<open>dfs_a\<close> returns the value of the recurrence and keeps the dictionary sound.
\<close>

lemma dfs_A_memo:
  assumes len: "n s = int (length (weights s))" "length (weights s) \<le> length (item_values s)"
  shows "0 \<le> i \<Longrightarrow> memo_ok (f_spec (weights s) (item_values s)) m \<Longrightarrow>
     0 < d \<Longrightarrow> n s - i < int d \<Longrightarrow>
     \<exists>m'. dfs_A d s i c m = (Inr (f_spec (weights s) (item_values s) i c), m')
        \<and> memo_ok (f_spec (weights s) (item_values s)) m'
        \<and> (i < n s \<and> 0 < c \<longrightarrow> m' (i, c) = Some (f_spec (weights s) (item_values s) i c))"
proof (induction d arbitrary: i c m)
  case 0
  then show ?case by simp
next
  case (Suc d)
  let ?F = "f_spec (weights s) (item_values s)"
  show ?case
  proof (cases "n s \<le> i \<or> c \<le> 0")
    case True
    then show ?thesis using Suc.prems len
      by (subst dfs_A.simps, subst f_spec.simps) auto
  next
    case False
    then have i: "0 \<le> i" "i < n s" and cpos: "0 < c" using Suc.prems by auto
    have d: "0 < d" "n s - (i + 1) < int d" using i Suc.prems by auto
    show ?thesis
    proof (cases "m (i, c)")
      case (Some r)
      then have "r = ?F i c" using Suc.prems by (simp add: memo_ok_def)
      then show ?thesis using Some i cpos Suc.prems
        by (subst dfs_A.simps) simp
    next
      case None
      from Suc.IH[of "i + 1" m c] i d Suc.prems
      obtain m1 where m1: "dfs_A d s (i + 1) c m = (Inr (?F (i + 1) c), m1)" "memo_ok ?F m1"
        by auto
      have w: "py_index (weights s) i = Inr (weights s ! nat i)"
        using i len by (simp add: py_index_nth)
      have v: "py_index (item_values s) i = Inr (item_values s ! nat i)"
        using i len by (simp add: py_index_nth)
      show ?thesis
      proof (cases "weights s ! nat i \<le> c")
        case True
        from Suc.IH[of "i + 1" m1 "c - weights s ! nat i"] i d m1
        obtain m2 where m2: "dfs_A d s (i + 1) (c - weights s ! nat i) m1
              = (Inr (?F (i + 1) (c - weights s ! nat i)), m2)" "memo_ok ?F m2"
          by auto
        have F: "?F i c = max (?F (i + 1) c) (item_values s ! nat i + ?F (i + 1) (c - weights s ! nat i))"
          using i cpos True len by (subst f_spec.simps) simp
        show ?thesis
          using None i cpos True m1 m2 w v F
          by (subst dfs_A.simps) (auto simp: memo_ok_def Let_def)
      next
        case False
        have F: "?F i c = ?F (i + 1) c"
          using i cpos False len by (subst f_spec.simps) simp
        show ?thesis
          using None i cpos False m1 w F f_spec_nonneg[of "weights s" "item_values s" "i + 1" c]
          by (subst dfs_A.simps) (auto simp: memo_ok_def Let_def NEG_less)
      qed
    qed
  qed
qed

text \<open>
  With a positive capacity and no entry for it in the dictionary, the skip branch
  descends to the last item: when fewer calls are left than that takes,
  \<^verbatim>\<open>RecursionError\<close> is raised before anything is stored.
\<close>

lemma dfs_A_exhausted:
  "0 < c \<Longrightarrow> int d \<le> n s - i \<Longrightarrow> \<forall>j. m (j, c) = None \<Longrightarrow>
   dfs_A d s i c m = (Inl RecursionError, m)"
proof (induction d arbitrary: i)
  case 0
  show ?case by (simp add: dfs_A.simps)
next
  case (Suc d)
  have "dfs_A d s (i + 1) c m = (Inl RecursionError, m)"
    using Suc.IH[of "i + 1"] Suc.prems by simp
  then show ?case using Suc.prems
    by (subst dfs_A.simps) simp
qed

lemma g_spec_nonneg: "0 \<le> g_spec ws vs k w"
proof (induction ws vs k w rule: g_spec.induct)
  case (1 ws vs k w)
  then show ?case
    by (subst g_spec.simps) (auto simp: max_def)
qed

lemma dfs_B_memo:
  assumes len: "length (weights s) \<le> length (item_values s)"
  shows "0 \<le> k \<Longrightarrow> k \<le> int (length (weights s)) \<Longrightarrow>
     memo_ok (g_spec (weights s) (item_values s)) m \<Longrightarrow> k < int d \<Longrightarrow>
     \<exists>m'. dfs_B d s k w m = (Inr (g_spec (weights s) (item_values s) k w), m')
        \<and> memo_ok (g_spec (weights s) (item_values s)) m'
        \<and> (0 < k \<longrightarrow> m' (k, w) = Some (g_spec (weights s) (item_values s) k w))"
proof (induction d arbitrary: k w m)
  case 0
  then show ?case by simp
next
  case (Suc d)
  let ?G = "g_spec (weights s) (item_values s)"
  show ?case
  proof (cases "k = 0")
    case True
    then show ?thesis using Suc.prems
      by (subst dfs_B.simps, subst g_spec.simps) simp
  next
    case False
    then have k: "0 < k" "k \<le> int (length (weights s))" using Suc.prems by auto
    have d: "k - 1 < int d" using Suc.prems by simp
    show ?thesis
    proof (cases "m (k, w)")
      case (Some r)
      then have "r = ?G k w" using Suc.prems by (simp add: memo_ok_def)
      then show ?thesis using Some k Suc.prems
        by (subst dfs_B.simps) simp
    next
      case None
      from Suc.IH[of "k - 1" m w] k d Suc.prems
      obtain m1 where m1: "dfs_B d s (k - 1) w m = (Inr (?G (k - 1) w), m1)" "memo_ok ?G m1"
        by auto
      have wt: "py_index (weights s) (k - 1) = Inr (weights s ! nat (k - 1))"
        using k by (simp add: py_index_nth)
      have v: "py_index (item_values s) (k - 1) = Inr (item_values s ! nat (k - 1))"
        using k len by (simp add: py_index_nth)
      show ?thesis
      proof (cases "weights s ! nat (k - 1) \<le> w")
        case True
        from Suc.IH[of "k - 1" m1 "w - weights s ! nat (k - 1)"] k d m1
        obtain m2 where m2: "dfs_B d s (k - 1) (w - weights s ! nat (k - 1)) m1
              = (Inr (?G (k - 1) (w - weights s ! nat (k - 1))), m2)" "memo_ok ?G m2"
          by auto
        have G: "?G k w = max (?G (k - 1) w)
                   (item_values s ! nat (k - 1) + ?G (k - 1) (w - weights s ! nat (k - 1)))"
          using k True by (subst g_spec.simps) simp
        show ?thesis
          using None k True m1 m2 wt v G
          by (subst dfs_B.simps) (auto simp: memo_ok_def Let_def)
      next
        case False
        have G: "?G k w = ?G (k - 1) w"
          using k False by (subst g_spec.simps) simp
        show ?thesis
          using None k False m1 wt G g_spec_nonneg[of "weights s" "item_values s" "k - 1" w]
          by (subst dfs_B.simps) (auto simp: memo_ok_def Let_def NEG_less)
      qed
    qed
  qed
qed

lemma dfs_B_negative_capacity:
  assumes w: "w < 0" and ws: "\<forall>x\<in>set (weights s). 0 \<le> x"
  shows "0 \<le> k \<Longrightarrow> k \<le> int (length (weights s)) \<Longrightarrow> memo_ok (\<lambda>k w. 0) m \<Longrightarrow>
     k < int d \<Longrightarrow>
     \<exists>m'. dfs_B d s k w m = (Inr 0, m') \<and> memo_ok (\<lambda>k w. 0) m'"
proof (induction d arbitrary: k m)
  case 0
  then show ?case by simp
next
  case (Suc d)
  show ?case
  proof (cases "k = 0")
    case True
    then show ?thesis using Suc.prems by (subst dfs_B.simps) simp
  next
    case False
    then have k: "0 < k" "k \<le> int (length (weights s))" using Suc.prems by auto
    have d: "k - 1 < int d" using Suc.prems by simp
    show ?thesis
    proof (cases "m (k, w)")
      case (Some r)
      then have "r = 0" using Suc.prems by (simp add: memo_ok_def)
      then show ?thesis using Some k Suc.prems
        by (subst dfs_B.simps) simp
    next
      case None
      from Suc.IH[of "k - 1" m] k d Suc.prems
      obtain m1 where m1: "dfs_B d s (k - 1) w m = (Inr 0, m1)" "memo_ok (\<lambda>k w. 0) m1"
        by auto
      have wt: "py_index (weights s) (k - 1) = Inr (weights s ! nat (k - 1))"
        using k by (simp add: py_index_nth)
      have "0 \<le> weights s ! nat (k - 1)"
        using ws k by (simp add: nat_less_iff)
      then have infeasible: "\<not> weights s ! nat (k - 1) \<le> w" using w by simp
      show ?thesis
        using None k infeasible m1 wt
        by (subst dfs_B.simps) (auto simp: memo_ok_def Let_def NEG_less)
    qed
  qed
qed

text \<open>
  From a dictionary with no entry for the capacity, the nested function of
  \<^verbatim>\<open>dfs_b\<close> descends from \<open>k\<close> to 0 before it reads a weight: with no more than
  \<open>k\<close> calls left it raises \<^verbatim>\<open>RecursionError\<close>.
\<close>

lemma dfs_B_exhausted:
  "int d \<le> k \<Longrightarrow> \<forall>j. m (j, w) = None \<Longrightarrow> dfs_B d s k w m = (Inl RecursionError, m)"
proof (induction d arbitrary: k)
  case 0
  show ?case by (simp add: dfs_B.simps)
next
  case (Suc d)
  have "dfs_B d s (k - 1) w m = (Inl RecursionError, m)"
    using Suc.IH[of "k - 1"] Suc.prems by simp
  then show ?case using Suc.prems
    by (subst dfs_B.simps) simp
qed

lemma for_each_no_columns:
  "for_each is (\<lambda>i. for_each [] (body i)) dp = Inr dp"
  by (induction "is") (simp_all add: bindE_def)

lemma replicate_update_same: "(replicate k x)[i := x] = replicate k x"
  by (induction k arbitrary: i) (auto split: nat.split)

lemma nat_int_Suc: "nat (int k + 1) = Suc k"
  by simp

lemma upto_empty_neg: "cap < 0 \<Longrightarrow> [0 .. cap] = []"
  by simp

text \<open>
  With a negative capacity the array has no column or is refused: NumPy raises for a
  number of columns below zero, or for a shape that is too large, and with no column
  at all the last line of either method reads column \<open>-1\<close> of an empty row.
\<close>

lemma np_full_no_column:
  "cap < 0 \<Longrightarrow>
   np_full (int k + 1) (cap + 1) x =
     (if cap + 1 < - (2 ^ 63) \<or> 2 ^ 63 \<le> int k + 1 then Inl (ValueError MaximumDimensionExceeded)
      else if 2 ^ 63 \<le> 8 * (int k + 1) then Inl (ValueError ArrayTooBig)
      else if cap < - 1 then Inl (ValueError NegativeDimensions)
      else Inr (replicate (Suc k) []))"
proof (cases "cap = - 1")
  case True
  then show ?thesis
    by (simp add: np_full_def Let_def memory_limit_def nat_int_Suc del: replicate_Suc)
next
  case False
  assume "cap < 0"
  with False have "cap + 1 < 0" "cap < - 1" by simp_all
  then show ?thesis
    by (simp add: np_full_def Let_def)
qed

lemma negative_capacity_dfs:
  fixes ws vs :: "int list" and cap :: int
  assumes cap: "cap < 0" and ws: "\<forall>x\<in>set ws. 0 \<le> x"
  defines "s \<equiv> \<lparr>weights = ws, item_values = vs, capacity = cap, n = int (length ws)\<rparr>"
  shows "dfs_a_in d s = (if 0 < d then Inr 0 else Inl RecursionError)"
    "dfs_b_in d s = (if length ws < d then Inr 0 else Inl RecursionError)"
proof -
  show "dfs_a_in d s = (if 0 < d then Inr 0 else Inl RecursionError)"
    using cap by (cases d) (simp_all add: dfs_a_in_def s_def dfs_A.simps)
  show "dfs_b_in d s = (if length ws < d then Inr 0 else Inl RecursionError)"
  proof (cases "length ws < d")
    case True
    have "\<exists>m'. dfs_B d s (int (length ws)) cap Map.empty = (Inr 0, m') \<and> memo_ok (\<lambda>k w. 0) m'"
      using dfs_B_negative_capacity[of cap s "int (length ws)" Map.empty d] cap ws True
      by (simp add: s_def memo_ok_def)
    then show ?thesis using True
      by (auto simp: dfs_b_in_def s_def)
  next
    case False
    then have "dfs_B d s (int (length ws)) cap Map.empty = (Inl RecursionError, Map.empty)"
      using dfs_B_exhausted[of d "int (length ws)" Map.empty cap s] by simp
    then show ?thesis using False
      by (simp add: dfs_b_in_def s_def)
  qed
qed

lemma negative_capacity_dp:
  fixes ws vs :: "int list" and cap :: int
  assumes cap: "cap < 0"
  defines "s \<equiv> \<lparr>weights = ws, item_values = vs, capacity = cap, n = int (length ws)\<rparr>"
  defines "e \<equiv>
     if cap + 1 < - (2 ^ 63) \<or> 2 ^ 63 \<le> int (length ws) + 1
       then ValueError MaximumDimensionExceeded
     else if 2 ^ 63 \<le> 8 * (int (length ws) + 1) then ValueError ArrayTooBig
     else if cap < - 1 then ValueError NegativeDimensions
     else IndexError"
  shows "dp_a s = Inl e" "dp_b s = Inl e"
proof -
  have full: "np_full (int (length ws) + 1) (cap + 1) x =
     (if e = IndexError then Inr (replicate (Suc (length ws)) []) else Inl e)" for x :: 'a
    using cap by (simp add: e_def np_full_no_column)
  have last: "cap = - 1" if "e = IndexError"
    using that cap by (simp add: e_def split: if_splits)
  show "dp_a s = Inl e"
  proof (cases "e = IndexError")
    case True
    have "dp_a s = Inl IndexError"
      using True
      by (simp add: dp_a_def s_def full del: replicate_Suc)
         (simp add: last[OF True] np_set_row_def norm_index_def bindE_def
            for_each_no_columns np_get_def py_index_def nat_int_Suc replicate_update_same
          del: replicate_Suc)
    then show ?thesis using True by simp
  next
    case False
    then show ?thesis
      by (simp add: dp_a_def s_def full bindE_def)
  qed
  show "dp_b s = Inl e"
  proof (cases "e = IndexError")
    case True
    have "dp_b s = Inl IndexError"
      using True
      by (simp add: dp_b_def s_def full del: replicate_Suc)
         (simp add: last[OF True] norm_index_def bindE_def
            for_each_no_columns np_get_def py_index_def nat_int_Suc del: replicate_Suc)
    then show ?thesis using True by simp
  next
    case False
    then show ?thesis
      by (simp add: dp_b_def s_def full bindE_def)
  qed
qed

subsection \<open>\<^verbatim>\<open>dfs_a\<close> and the recurrence of the specification\<close>

lemma f_spec_basic: "f_spec [2, 3, 4, 5] [3, 4, 5, 6] 0 8 = 10"
  by code_simp

text \<open>
  Claim C6, as the specification states it, fails on an instance of a thousand items
  of weight 1 with capacity 1: the skip branch descends through all the items, the
  interpreter refuses the 996th nested call, and \<^verbatim>\<open>dfs_a\<close> raises
  \<^verbatim>\<open>RecursionError\<close> where the recurrence has a value.
\<close>

theorem dfs_a_recursion_counterexample:
  "KnapsackSolver_init (replicate 1000 1) (replicate 1000 1) 1 =
     Inr \<lparr>weights = replicate 1000 1, item_values = replicate 1000 1, capacity = 1, n = 1000\<rparr>
   \<and> dfs_a \<lparr>weights = replicate 1000 1, item_values = replicate 1000 1, capacity = 1, n = 1000\<rparr>
       = Inl RecursionError
   \<and> dfs_a \<lparr>weights = replicate 1000 1, item_values = replicate 1000 1, capacity = 1, n = 1000\<rparr>
       \<noteq> Inr (f_spec (replicate 1000 1) (replicate 1000 1) 0 1)"
proof -
  have "dfs_A dfs_frames
          \<lparr>weights = replicate 1000 1, item_values = replicate 1000 1, capacity = 1, n = 1000\<rparr>
          0 1 Map.empty = (Inl RecursionError, Map.empty)"
    by (rule dfs_A_exhausted) (simp_all add: dfs_frames_Suc)
  then show ?thesis
    by (simp add: KnapsackSolver_init_def dfs_a_def dfs_a_in_def)
qed

text \<open>
  Claim C6, with the recursion limit taken into account. For weights and values of
  equal length, \<^verbatim>\<open>dfs_a\<close> returns \<open>f(0, capacity)\<close> for the recurrence \<open>f\<close> of
  the specification when the interpreter still allows one nested call per item and one
  more (a single call when the capacity is not positive), and raises
  \<^verbatim>\<open>RecursionError\<close> otherwise. The nested function called at any state \<open>(i, c)\<close>
  with a sound memo table and a call left for each remaining item and one more
  returns \<open>f(i, c)\<close>, leaves a sound table, and has stored the value under the key
  \<open>(i, c)\<close> when the state is not a base case; and it returns a cached value without
  computing anything.
\<close>

theorem dfs_a_computes_recurrence:
  fixes ws vs :: "int list" and cap :: int
  defines "s \<equiv> \<lparr>weights = ws, item_values = vs, capacity = cap, n = int (length ws)\<rparr>"
  assumes len: "length vs = length ws"
  shows "(\<forall>d. dfs_a_in d s =
            (if 0 < d \<and> (0 < cap \<longrightarrow> length ws < d) then Inr (f_spec ws vs 0 cap)
             else Inl RecursionError))
    \<and> dfs_a s =
        (if 0 < cap \<longrightarrow> length ws < dfs_frames then Inr (f_spec ws vs 0 cap)
         else Inl RecursionError)
    \<and> (\<forall>d i c m. 0 \<le> i \<and> memo_ok (f_spec ws vs) m \<and> 0 < d \<and> n s - i < int d \<longrightarrow>
          (\<exists>m'. dfs_A d s i c m = (Inr (f_spec ws vs i c), m')
             \<and> memo_ok (f_spec ws vs) m'
             \<and> (i < n s \<and> 0 < c \<longrightarrow> m' (i, c) = Some (f_spec ws vs i c))))
    \<and> (\<forall>d i c m r. i < n s \<and> 0 < c \<and> m (i, c) = Some r \<longrightarrow>
          dfs_A (Suc d) s i c m = (Inr r, m))"
proof -
  have s: "n s = int (length (weights s))" "length (weights s) \<le> length (item_values s)"
    "weights s = ws" "item_values s = vs" "capacity s = cap" "n s = int (length ws)"
    using len by (simp_all add: s_def)
  have empty: "memo_ok (f_spec ws vs) Map.empty" by (simp add: memo_ok_def)
  have top: "dfs_a_in d s =
            (if 0 < d \<and> (0 < cap \<longrightarrow> length ws < d) then Inr (f_spec ws vs 0 cap)
             else Inl RecursionError)" for d
  proof (cases "0 < d \<and> (0 < cap \<longrightarrow> length ws < d)")
    case True
    show ?thesis
    proof (cases "0 < cap")
      case True
      with \<open>0 < d \<and> (0 < cap \<longrightarrow> length ws < d)\<close>
      have "\<exists>m'. dfs_A d s 0 cap Map.empty = (Inr (f_spec ws vs 0 cap), m')"
        using dfs_A_memo[OF s(1,2), of 0 Map.empty d cap] empty by (auto simp: s)
      then show ?thesis using True \<open>0 < d \<and> (0 < cap \<longrightarrow> length ws < d)\<close>
        by (auto simp: dfs_a_in_def s)
    next
      case False
      then have "f_spec ws vs 0 cap = 0" by (subst f_spec.simps) simp
      then show ?thesis using False True
        by (cases d) (simp_all add: dfs_a_in_def s dfs_A.simps)
    qed
  next
    case False
    show ?thesis
    proof (cases d)
      case 0
      then show ?thesis by (simp add: dfs_a_in_def dfs_A.simps)
    next
      case (Suc d')
      with False have c: "0 < cap" "int d \<le> n s - 0" by (auto simp: s)
      have "dfs_A d s 0 cap Map.empty = (Inl RecursionError, Map.empty)"
        by (rule dfs_A_exhausted) (use c in simp_all)
      then show ?thesis using False by (simp add: dfs_a_in_def s)
    qed
  qed
  have script: "dfs_a s =
        (if 0 < cap \<longrightarrow> length ws < dfs_frames then Inr (f_spec ws vs 0 cap)
         else Inl RecursionError)"
    using top[of dfs_frames] by (simp add: dfs_a_def dfs_frames_Suc)
  have rec: "\<exists>m'. dfs_A d s i c m = (Inr (f_spec ws vs i c), m')
             \<and> memo_ok (f_spec ws vs) m'
             \<and> (i < n s \<and> 0 < c \<longrightarrow> m' (i, c) = Some (f_spec ws vs i c))"
    if "0 \<le> i \<and> memo_ok (f_spec ws vs) m \<and> 0 < d \<and> n s - i < int d" for d i c m
    using dfs_A_memo[OF s(1,2), of i m d c] that by (simp add: s)
  have hit: "dfs_A (Suc d) s i c m = (Inr r, m)"
    if "i < n s \<and> 0 < c \<and> m (i, c) = Some r" for d i c m r
    using that by (subst dfs_A.simps) simp
  show ?thesis using top script rec hit by blast
qed

theorem dfs_a_computes_recurrence_witness:
  "length [3, 4, 5, 6 :: int] = length [2, 3, 4, 5 :: int]
   \<and> dfs_a \<lparr>weights = [2, 3, 4, 5], item_values = [3, 4, 5, 6], capacity = 8, n = 4\<rparr> = Inr 10
   \<and> dfs_a_in 5 \<lparr>weights = [2, 3, 4, 5], item_values = [3, 4, 5, 6], capacity = 8, n = 4\<rparr>
       = Inr 10
   \<and> dfs_a_in 4 \<lparr>weights = [2, 3, 4, 5], item_values = [3, 4, 5, 6], capacity = 8, n = 4\<rparr>
       = Inl RecursionError
   \<and> f_spec [2, 3, 4, 5] [3, 4, 5, 6] 0 8 = 10"
  using dfs_a_computes_recurrence [of "[3, 4, 5, 6]" "[2, 3, 4, 5]" 8]
  by (simp add: f_spec_basic dfs_frames_Suc)

subsection \<open>Negative capacity\<close>

text \<open>
  Claim C10, as the specification states it, fails on an instance of a thousand
  items at capacity \<open>-1\<close>: \<^verbatim>\<open>dfs_b\<close> has no base case on the capacity and computes
  the skip branch first, so it descends through all the items and raises
  \<^verbatim>\<open>RecursionError\<close> where the claim has it return 0.
\<close>

theorem dfs_b_recursion_counterexample:
  "KnapsackSolver_init (replicate 1000 1) (replicate 1000 1) (- 1) =
     Inr \<lparr>weights = replicate 1000 1, item_values = replicate 1000 1, capacity = - 1, n = 1000\<rparr>
   \<and> dfs_b \<lparr>weights = replicate 1000 1, item_values = replicate 1000 1, capacity = - 1, n = 1000\<rparr>
       = Inl RecursionError"
proof -
  have "dfs_B dfs_frames
          \<lparr>weights = replicate 1000 1, item_values = replicate 1000 1, capacity = - 1, n = 1000\<rparr>
          1000 (- 1) Map.empty = (Inl RecursionError, Map.empty)"
    by (rule dfs_B_exhausted) (simp_all add: dfs_frames_Suc)
  then show ?thesis
    by (simp add: KnapsackSolver_init_def dfs_b_def dfs_b_in_def)
qed

text \<open>
  Claim C10, with the recursion limit taken into account. With a negative capacity
  and weights that are not negative, \<^verbatim>\<open>dfs_a\<close> returns 0 at its first nested call;
  \<^verbatim>\<open>dfs_b\<close> returns 0 when the interpreter still allows one nested call per item
  and one more, and raises \<^verbatim>\<open>RecursionError\<close> otherwise; \<^verbatim>\<open>dp_a\<close> and
  \<^verbatim>\<open>dp_b\<close> raise an exception: \<^verbatim>\<open>IndexError\<close> at capacity \<open>-1\<close>, where the
  array has no column and the last line reads column \<open>-1\<close>, and NumPy's
  \<^verbatim>\<open>ValueError\<close> below that, for the negative dimension, or for a shape that is too
  large.
\<close>

theorem negative_capacity_behaviour:
  fixes ws vs :: "int list" and cap :: int
  defines "s \<equiv> \<lparr>weights = ws, item_values = vs, capacity = cap, n = int (length ws)\<rparr>"
  defines "e \<equiv>
     if cap + 1 < - (2 ^ 63) \<or> 2 ^ 63 \<le> int (length ws) + 1
       then ValueError MaximumDimensionExceeded
     else if 2 ^ 63 \<le> 8 * (int (length ws) + 1) then ValueError ArrayTooBig
     else if cap < - 1 then ValueError NegativeDimensions
     else IndexError"
  assumes "cap < 0" and "\<forall>x\<in>set ws. 0 \<le> x"
  shows "(\<forall>d. dfs_a_in d s = (if 0 < d then Inr 0 else Inl RecursionError))
    \<and> (\<forall>d. dfs_b_in d s = (if length ws < d then Inr 0 else Inl RecursionError))
    \<and> dfs_a s = Inr 0
    \<and> dfs_b s = (if length ws < dfs_frames then Inr 0 else Inl RecursionError)
    \<and> dp_a s = Inl e \<and> dp_b s = Inl e"
  using negative_capacity_dfs [OF assms(3,4), of _ vs] negative_capacity_dp [OF assms(3), of ws vs]
  by (simp add: s_def e_def dfs_a_def dfs_b_def dfs_frames_Suc)

theorem negative_capacity_behaviour_witness:
  "dfs_a \<lparr>weights = [1, 2], item_values = [3, 4], capacity = - 1, n = 2\<rparr> = Inr 0
   \<and> dfs_b \<lparr>weights = [1, 2], item_values = [3, 4], capacity = - 1, n = 2\<rparr> = Inr 0
   \<and> dfs_b_in 2 \<lparr>weights = [1, 2], item_values = [3, 4], capacity = - 1, n = 2\<rparr>
       = Inl RecursionError
   \<and> dp_a \<lparr>weights = [1, 2], item_values = [3, 4], capacity = - 1, n = 2\<rparr> = Inl IndexError
   \<and> dp_b \<lparr>weights = [1, 2], item_values = [3, 4], capacity = - 1, n = 2\<rparr> = Inl IndexError
   \<and> dfs_a \<lparr>weights = [1, 2], item_values = [3, 4], capacity = - 3, n = 2\<rparr> = Inr 0
   \<and> dfs_b \<lparr>weights = [1, 2], item_values = [3, 4], capacity = - 3, n = 2\<rparr> = Inr 0
   \<and> dp_a \<lparr>weights = [1, 2], item_values = [3, 4], capacity = - 3, n = 2\<rparr>
       = Inl (ValueError NegativeDimensions)
   \<and> dp_b \<lparr>weights = [1, 2], item_values = [3, 4], capacity = - 3, n = 2\<rparr>
       = Inl (ValueError NegativeDimensions)"
  using negative_capacity_behaviour [of "- 1" "[1, 2]" "[3, 4]"]
    negative_capacity_behaviour [of "- 3" "[1, 2]" "[3, 4]"]
  by (simp add: dfs_frames_Suc)

subsection \<open>Calls change neither the solver nor later results\<close>

text \<open>
  Run on a state whose store holds the dictionary \<open>m\<close> at the address \<open>a\<close>, the
  nested function over the store does what the nested function over the dictionary
  does: same result, and the dictionary that it leaves is the only change to the
  state.
\<close>

lemma dfs_A_w_sim:
  "a < length (store w) \<Longrightarrow> store w ! a = Dict m \<Longrightarrow>
   dfs_A_w d a i c w =
     (case dfs_A d (solver w) i c m of (r, m') \<Rightarrow> (r, w\<lparr>store := (store w)[a := Dict m']\<rparr>))"
proof (induction d arbitrary: i c w m)
  case 0
  then show ?case by (simp add: dfs_A_w.simps dfs_A.simps list_update_same_conv[THEN iffD2])
next
  case (Suc d)
  have same: "w\<lparr>store := (store w)[a := Dict m]\<rparr> = w"
    using Suc.prems by (simp add: list_update_same_conv[THEN iffD2])
  obtain r1 m1 where r1: "dfs_A d (solver w) (i + 1) c m = (r1, m1)" by force
  let ?w1 = "w\<lparr>store := (store w)[a := Dict m1]\<rparr>"
  have w1: "dfs_A_w d a (i + 1) c w = (r1, ?w1)"
    using Suc.IH[OF Suc.prems, of "i + 1" c] r1 by simp
  have w1a: "a < length (store ?w1)" "store ?w1 ! a = Dict m1" "solver ?w1 = solver w"
    using Suc.prems by simp_all
  have w2: "dfs_A_w d a (i + 1) c' ?w1 =
     (case dfs_A d (solver w) (i + 1) c' m1 of (r, m') \<Rightarrow> (r, w\<lparr>store := (store w)[a := Dict m']\<rparr>))" for c'
    using Suc.IH[OF w1a(1,2), of "i + 1" c'] by (simp add: w1a(3))
  show ?case
  proof (cases "n (solver w) \<le> i \<or> c \<le> 0")
    case True
    then show ?thesis
      by (subst dfs_A_w.simps, subst dfs_A.simps) (auto simp: same)
  next
    case base: False
    show ?thesis
    proof (cases "m (i, c)")
      case (Some r)
      then show ?thesis using base Suc.prems
        by (subst dfs_A_w.simps, subst dfs_A.simps) (simp add: same dict_at_def)
    next
      case None
      show ?thesis
      proof (cases r1)
        case (Inl e)
        then show ?thesis using base None Suc.prems
          by (subst dfs_A_w.simps, subst dfs_A.simps) (simp add: w1 r1 dict_at_def)
      next
        case (Inr skip)
        then show ?thesis using base None Suc.prems
          by (subst dfs_A_w.simps, subst dfs_A.simps)
             (simp add: w1 r1 w2 dict_at_def dict_put_def Let_def
                split: sum.splits prod.splits)
      qed
    qed
  qed
qed

lemma dfs_B_w_sim:
  "a < length (store h) \<Longrightarrow> store h ! a = Dict m \<Longrightarrow>
   dfs_B_w d a k w h =
     (case dfs_B d (solver h) k w m of (r, m') \<Rightarrow> (r, h\<lparr>store := (store h)[a := Dict m']\<rparr>))"
proof (induction d arbitrary: k w h m)
  case 0
  then show ?case by (simp add: dfs_B_w.simps dfs_B.simps list_update_same_conv[THEN iffD2])
next
  case (Suc d)
  have same: "h\<lparr>store := (store h)[a := Dict m]\<rparr> = h"
    using Suc.prems by (simp add: list_update_same_conv[THEN iffD2])
  obtain r1 m1 where r1: "dfs_B d (solver h) (k - 1) w m = (r1, m1)" by force
  let ?h1 = "h\<lparr>store := (store h)[a := Dict m1]\<rparr>"
  have h1: "dfs_B_w d a (k - 1) w h = (r1, ?h1)"
    using Suc.IH[OF Suc.prems, of "k - 1" w] r1 by simp
  have h1a: "a < length (store ?h1)" "store ?h1 ! a = Dict m1" "solver ?h1 = solver h"
    using Suc.prems by simp_all
  have h2: "dfs_B_w d a (k - 1) w' ?h1 =
     (case dfs_B d (solver h) (k - 1) w' m1 of (r, m') \<Rightarrow> (r, h\<lparr>store := (store h)[a := Dict m']\<rparr>))" for w'
    using Suc.IH[OF h1a(1,2), of "k - 1" w'] by (simp add: h1a(3))
  show ?case
  proof (cases "k = 0")
    case True
    then show ?thesis
      by (subst dfs_B_w.simps, subst dfs_B.simps) (auto simp: same)
  next
    case base: False
    show ?thesis
    proof (cases "m (k, w)")
      case (Some r)
      then show ?thesis using base Suc.prems
        by (subst dfs_B_w.simps, subst dfs_B.simps) (simp add: same dict_at_def)
    next
      case None
      show ?thesis
      proof (cases r1)
        case (Inl e)
        then show ?thesis using base None Suc.prems
          by (subst dfs_B_w.simps, subst dfs_B.simps) (simp add: h1 r1 dict_at_def)
      next
        case (Inr skip)
        then show ?thesis using base None Suc.prems
          by (subst dfs_B_w.simps, subst dfs_B.simps)
             (simp add: h1 r1 h2 dict_at_def dict_put_def Let_def
                split: sum.splits prod.splits)
      qed
    qed
  qed
qed

lemma append_update_last: "(xs @ [x])[length xs := y] = xs @ [y]"
  by simp

lemma dfs_a_w_result:
  "\<exists>obj. dfs_a_w d w = (dfs_a_in d (solver w), w\<lparr>store := store w @ [obj]\<rparr>)"
proof -
  obtain r m' where r: "dfs_A d (solver w) 0 (capacity (solver w)) Map.empty = (r, m')" by force
  have "dfs_a_w d w = (r, w\<lparr>store := store w @ [Dict m']\<rparr>)"
    using dfs_A_w_sim[of "length (store w)" "w\<lparr>store := store w @ [Dict Map.empty]\<rparr>"
            Map.empty d 0 "capacity (solver w)"] r
    by (simp add: dfs_a_w_def Let_def)
  then show ?thesis using r by (auto simp: dfs_a_in_def)
qed

lemma dfs_b_w_result:
  "\<exists>obj. dfs_b_w d w = (dfs_b_in d (solver w), w\<lparr>store := store w @ [obj]\<rparr>)"
proof -
  obtain r m' where r: "dfs_B d (solver w) (n (solver w)) (capacity (solver w)) Map.empty = (r, m')"
    by force
  have "dfs_b_w d w = (r, w\<lparr>store := store w @ [Dict m']\<rparr>)"
    using dfs_B_w_sim[of "length (store w)" "w\<lparr>store := store w @ [Dict Map.empty]\<rparr>"
            Map.empty d "n (solver w)" "capacity (solver w)"] r
    by (simp add: dfs_b_w_def Let_def)
  then show ?thesis using r by (auto simp: dfs_b_in_def)
qed

lemma for_each_w_tracks:
  fixes inj :: "'g \<Rightarrow> pyobject"
  assumes body: "\<And>x w g. a < length (store w) \<Longrightarrow> store w ! a = inj g \<Longrightarrow> solver w = s \<Longrightarrow>
      \<exists>g'. bodyw x w = (case body x g of Inl e \<Rightarrow> Inl e | Inr g2 \<Rightarrow> Inr (),
                          w\<lparr>store := (store w)[a := inj g']\<rparr>)
           \<and> (\<forall>g2. body x g = Inr g2 \<longrightarrow> g' = g2)"
  shows "a < length (store w) \<Longrightarrow> store w ! a = inj g \<Longrightarrow> solver w = s \<Longrightarrow>
      \<exists>g'. for_each_w xs bodyw w = (case for_each xs body g of Inl e \<Rightarrow> Inl e | Inr g2 \<Rightarrow> Inr (),
                          w\<lparr>store := (store w)[a := inj g']\<rparr>)
           \<and> (\<forall>g2. for_each xs body g = Inr g2 \<longrightarrow> g' = g2)"
proof (induction xs arbitrary: w g)
  case Nil
  then have "w\<lparr>store := (store w)[a := inj g]\<rparr> = w"
    by (simp add: list_update_same_conv[THEN iffD2])
  then show ?case by auto
next
  case (Cons x xs)
  from body[OF Cons.prems] obtain g1 where
    g1: "bodyw x w = (case body x g of Inl e \<Rightarrow> Inl e | Inr g2 \<Rightarrow> Inr (),
                          w\<lparr>store := (store w)[a := inj g1]\<rparr>)"
    and g1': "\<forall>g2. body x g = Inr g2 \<longrightarrow> g1 = g2"
    by blast
  show ?case
  proof (cases "body x g")
    case (Inl e)
    then show ?thesis using g1 by (auto simp: bindE_def)
  next
    case (Inr g2)
    then have eq: "g1 = g2" using g1' by simp
    let ?w1 = "w\<lparr>store := (store w)[a := inj g2]\<rparr>"
    have w1: "a < length (store ?w1)" "store ?w1 ! a = inj g2" "solver ?w1 = s"
      using Cons.prems by simp_all
    from Cons.IH[OF w1] obtain g3 where
      g3: "for_each_w xs bodyw ?w1 =
             (case for_each xs body g2 of Inl e \<Rightarrow> Inl e | Inr g2 \<Rightarrow> Inr (),
              ?w1\<lparr>store := (store ?w1)[a := inj g3]\<rparr>)"
      and g3': "\<forall>g4. for_each xs body g2 = Inr g4 \<longrightarrow> g3 = g4"
      by blast
    have "for_each_w (x # xs) bodyw w =
             (case for_each (x # xs) body g of Inl e \<Rightarrow> Inl e | Inr g2 \<Rightarrow> Inr (),
              w\<lparr>store := (store w)[a := inj g3]\<rparr>)"
      using g1 g3 Inr eq by (simp add: bindE_def)
    moreover have "\<forall>g4. for_each (x # xs) body g = Inr g4 \<longrightarrow> g3 = g4"
      using g3' Inr by (simp add: bindE_def)
    ultimately show ?thesis by blast
  qed
qed


lemma assign_a_tracks:
  assumes "a < length (store w)" "store w ! a = IntArray g" "solver w = s"
  shows "\<exists>g'. assign_a a i c w =
           (case bindE (cell_a s g i c) (\<lambda>x. np_set g i c x) of Inl e \<Rightarrow> Inl e | Inr g2 \<Rightarrow> Inr (),
            w\<lparr>store := (store w)[a := IntArray g']\<rparr>)
         \<and> (\<forall>g2. bindE (cell_a s g i c) (\<lambda>x. np_set g i c x) = Inr g2 \<longrightarrow> g' = g2)"
proof (cases "bindE (cell_a s g i c) (\<lambda>x. np_set g i c x)")
  case (Inl e)
  have "w\<lparr>store := (store w)[a := IntArray g]\<rparr> = w"
    using assms by (simp add: list_update_same_conv[THEN iffD2])
  then have "assign_a a i c w = (Inl e, w\<lparr>store := (store w)[a := IntArray g]\<rparr>)"
    using Inl assms by (simp add: assign_a_def int_array_def)
  then show ?thesis using Inl by auto
next
  case (Inr g2)
  then have "assign_a a i c w = (Inr (), w\<lparr>store := (store w)[a := IntArray g2]\<rparr>)"
    using assms by (simp add: assign_a_def int_array_def)
  then show ?thesis using Inr by auto
qed

lemma assign_b_tracks:
  assumes "a < length (store w)" "store w ! a = FloatArray g" "solver w = s"
  shows "\<exists>g'. assign_b a i c w =
           (case bindE (cell_b s g i c) (\<lambda>x. np_set g i c x) of Inl e \<Rightarrow> Inl e | Inr g2 \<Rightarrow> Inr (),
            w\<lparr>store := (store w)[a := FloatArray g']\<rparr>)
         \<and> (\<forall>g2. bindE (cell_b s g i c) (\<lambda>x. np_set g i c x) = Inr g2 \<longrightarrow> g' = g2)"
proof (cases "bindE (cell_b s g i c) (\<lambda>x. np_set g i c x)")
  case (Inl e)
  have "w\<lparr>store := (store w)[a := FloatArray g]\<rparr> = w"
    using assms by (simp add: list_update_same_conv[THEN iffD2])
  then have "assign_b a i c w = (Inl e, w\<lparr>store := (store w)[a := FloatArray g]\<rparr>)"
    using Inl assms by (simp add: assign_b_def float_array_def)
  then show ?thesis using Inl by auto
next
  case (Inr g2)
  then have "assign_b a i c w = (Inr (), w\<lparr>store := (store w)[a := FloatArray g2]\<rparr>)"
    using assms by (simp add: assign_b_def float_array_def)
  then show ?thesis using Inr by auto
qed

lemma loops_a_tracks:
  assumes "a < length (store w)" "store w ! a = IntArray g" "solver w = s"
  shows "\<exists>g'. for_each_w is (\<lambda>i w. for_each_w [0 .. capacity (solver w)] (assign_a a i) w) w =
           (case for_each is (\<lambda>i. for_each [0 .. capacity s]
                   (\<lambda>c dp. bindE (cell_a s dp i c) (\<lambda>x. np_set dp i c x))) g of
              Inl e \<Rightarrow> Inl e | Inr g2 \<Rightarrow> Inr (),
            w\<lparr>store := (store w)[a := IntArray g']\<rparr>)
         \<and> (\<forall>g2. for_each is (\<lambda>i. for_each [0 .. capacity s]
                   (\<lambda>c dp. bindE (cell_a s dp i c) (\<lambda>x. np_set dp i c x))) g = Inr g2
               \<longrightarrow> g' = g2)"
proof (rule for_each_w_tracks[where inj = IntArray and s = s, OF _ assms])
  fix i :: int and w :: world and g :: "int grid"
  assume w: "a < length (store w)" "store w ! a = IntArray g" "solver w = s"
  show "\<exists>g'. for_each_w [0 .. capacity (solver w)] (assign_a a i) w =
           (case for_each [0 .. capacity s]
                   (\<lambda>c dp. bindE (cell_a s dp i c) (\<lambda>x. np_set dp i c x)) g of
              Inl e \<Rightarrow> Inl e | Inr g2 \<Rightarrow> Inr (),
            w\<lparr>store := (store w)[a := IntArray g']\<rparr>)
         \<and> (\<forall>g2. for_each [0 .. capacity s]
                   (\<lambda>c dp. bindE (cell_a s dp i c) (\<lambda>x. np_set dp i c x)) g = Inr g2
               \<longrightarrow> g' = g2)"
    unfolding w(3)
    by (rule for_each_w_tracks[where inj = IntArray and s = s, OF _ w])
       (rule assign_a_tracks)
qed

lemma loops_b_tracks:
  assumes "a < length (store w)" "store w ! a = FloatArray g" "solver w = s"
  shows "\<exists>g'. for_each_w is (\<lambda>i w. for_each_w [0 .. capacity (solver w)] (assign_b a i) w) w =
           (case for_each is (\<lambda>i. for_each [0 .. capacity s]
                   (\<lambda>c dp. bindE (cell_b s dp i c) (\<lambda>x. np_set dp i c x))) g of
              Inl e \<Rightarrow> Inl e | Inr g2 \<Rightarrow> Inr (),
            w\<lparr>store := (store w)[a := FloatArray g']\<rparr>)
         \<and> (\<forall>g2. for_each is (\<lambda>i. for_each [0 .. capacity s]
                   (\<lambda>c dp. bindE (cell_b s dp i c) (\<lambda>x. np_set dp i c x))) g = Inr g2
               \<longrightarrow> g' = g2)"
proof (rule for_each_w_tracks[where inj = FloatArray and s = s, OF _ assms])
  fix i :: int and w :: world and g :: "float64 grid"
  assume w: "a < length (store w)" "store w ! a = FloatArray g" "solver w = s"
  show "\<exists>g'. for_each_w [0 .. capacity (solver w)] (assign_b a i) w =
           (case for_each [0 .. capacity s]
                   (\<lambda>c dp. bindE (cell_b s dp i c) (\<lambda>x. np_set dp i c x)) g of
              Inl e \<Rightarrow> Inl e | Inr g2 \<Rightarrow> Inr (),
            w\<lparr>store := (store w)[a := FloatArray g']\<rparr>)
         \<and> (\<forall>g2. for_each [0 .. capacity s]
                   (\<lambda>c dp. bindE (cell_b s dp i c) (\<lambda>x. np_set dp i c x)) g = Inr g2
               \<longrightarrow> g' = g2)"
    unfolding w(3)
    by (rule for_each_w_tracks[where inj = FloatArray and s = s, OF _ w])
       (rule assign_b_tracks)
qed

lemma dp_a_w_result:
  "\<exists>objs. dp_a_w w = (dp_a (solver w), w\<lparr>store := store w @ objs\<rparr>)"
proof (cases "np_full (n (solver w) + 1) (capacity (solver w) + 1) NEG")
  case (Inl e)
  then have "dp_a_w w = (dp_a (solver w), w\<lparr>store := store w @ []\<rparr>)"
    by (simp add: dp_a_w_def dp_a_def bindE_def)
  then show ?thesis by blast
next
  case (Inr dp)
  let ?a = "length (store w)"
  let ?w0 = "w\<lparr>store := store w @ [IntArray dp]\<rparr>"
  have a0: "int_array ?w0 ?a = dp" by (simp add: int_array_def)
  show ?thesis
  proof (cases "np_set_row dp (n (solver w)) 0")
    case (Inl e)
    then have "dp_a_w w = (dp_a (solver w), w\<lparr>store := store w @ [IntArray dp]\<rparr>)"
      using Inr by (simp add: dp_a_w_def dp_a_def bindE_def Let_def a0)
    then show ?thesis by blast
  next
    case row: (Inr dp1)
    let ?w1 = "w\<lparr>store := store w @ [IntArray dp1]\<rparr>"
    have w1: "?a < length (store ?w1)" "store ?w1 ! ?a = IntArray dp1" "solver ?w1 = solver w"
      by simp_all
    from loops_a_tracks[OF w1, of "rev [0 .. n (solver w) - 1]"] obtain g' where
      loop: "for_each_w (rev [0 .. n (solver w) - 1])
               (\<lambda>i w. for_each_w [0 .. capacity (solver w)] (assign_a ?a i) w) ?w1 =
           (case for_each (rev [0 .. n (solver w) - 1]) (\<lambda>i. for_each [0 .. capacity (solver w)]
                   (\<lambda>c dp. bindE (cell_a (solver w) dp i c) (\<lambda>x. np_set dp i c x))) dp1 of
              Inl e \<Rightarrow> Inl e | Inr g2 \<Rightarrow> Inr (),
            w\<lparr>store := store w @ [IntArray g']\<rparr>)"
      and g': "\<forall>g2. for_each (rev [0 .. n (solver w) - 1]) (\<lambda>i. for_each [0 .. capacity (solver w)]
                   (\<lambda>c dp. bindE (cell_a (solver w) dp i c) (\<lambda>x. np_set dp i c x))) dp1 = Inr g2
               \<longrightarrow> g' = g2"
      by auto
    have "dp_a_w w = (dp_a (solver w), w\<lparr>store := store w @ [IntArray g']\<rparr>)"
      using Inr row loop g'
      by (simp add: dp_a_w_def dp_a_def bindE_def Let_def a0 int_array_def
            split: sum.splits)
    then show ?thesis by blast
  qed
qed

lemma dp_b_w_result:
  "\<exists>objs. dp_b_w w = (dp_b (solver w), w\<lparr>store := store w @ objs\<rparr>)"
proof (cases "np_full (n (solver w) + 1) (capacity (solver w) + 1) (Fin 0)")
  case (Inl e)
  then have "dp_b_w w = (dp_b (solver w), w\<lparr>store := store w @ []\<rparr>)"
    by (simp add: dp_b_w_def dp_b_def bindE_def)
  then show ?thesis by blast
next
  case (Inr dp)
  let ?a = "length (store w)"
  let ?w0 = "w\<lparr>store := store w @ [FloatArray dp]\<rparr>"
  have w0: "?a < length (store ?w0)" "store ?w0 ! ?a = FloatArray dp" "solver ?w0 = solver w"
    by simp_all
  from loops_b_tracks[OF w0, of "[1 .. n (solver w)]"] obtain g' where
    loop: "for_each_w [1 .. n (solver w)]
             (\<lambda>i w. for_each_w [0 .. capacity (solver w)] (assign_b ?a i) w) ?w0 =
         (case for_each [1 .. n (solver w)] (\<lambda>i. for_each [0 .. capacity (solver w)]
                 (\<lambda>c dp. bindE (cell_b (solver w) dp i c) (\<lambda>x. np_set dp i c x))) dp of
            Inl e \<Rightarrow> Inl e | Inr g2 \<Rightarrow> Inr (),
          w\<lparr>store := store w @ [FloatArray g']\<rparr>)"
    and g': "\<forall>g2. for_each [1 .. n (solver w)] (\<lambda>i. for_each [0 .. capacity (solver w)]
                 (\<lambda>c dp. bindE (cell_b (solver w) dp i c) (\<lambda>x. np_set dp i c x))) dp = Inr g2
             \<longrightarrow> g' = g2"
    by auto
  have "dp_b_w w = (dp_b (solver w), w\<lparr>store := store w @ [FloatArray g']\<rparr>)"
    using Inr loop g'
    by (simp add: dp_b_w_def dp_b_def bindE_def Let_def float_array_def
          split: sum.splits)
  then show ?thesis by blast
qed

lemma call_result:
  "\<exists>objs. call d m w = (result_of d m (solver w), w\<lparr>store := store w @ objs\<rparr>)"
proof (cases m)
  case DFS_A
  then show ?thesis using dfs_a_w_result[of d w] by auto
next
  case DP_A
  then show ?thesis using dp_a_w_result[of w] by auto
next
  case DFS_B
  then show ?thesis using dfs_b_w_result[of d w] by auto
next
  case DP_B
  then show ?thesis using dp_b_w_result[of w] by auto
qed

lemma calls_result:
  "\<exists>objs. calls d ms w = (map (\<lambda>m. result_of d m (solver w)) ms, w\<lparr>store := store w @ objs\<rparr>)"
proof (induction ms arbitrary: w)
  case Nil
  have "calls d [] w = (map (\<lambda>m. result_of d m (solver w)) [], w\<lparr>store := store w @ []\<rparr>)"
    by simp
  then show ?case by blast
next
  case (Cons m ms)
  from call_result[of d m w] obtain o1 where
    o1: "call d m w = (result_of d m (solver w), w\<lparr>store := store w @ o1\<rparr>)" by blast
  from Cons[of "w\<lparr>store := store w @ o1\<rparr>"] obtain o2 where
    o2: "calls d ms (w\<lparr>store := store w @ o1\<rparr>) =
           (map (\<lambda>m. result_of d m (solver w)) ms, w\<lparr>store := store w @ o1 @ o2\<rparr>)"
    by auto
  have "calls d (m # ms) w =
          (map (\<lambda>m. result_of d m (solver w)) (m # ms), w\<lparr>store := store w @ (o1 @ o2)\<rparr>)"
    using o1 o2 by simp
  then show ?case by blast
qed

text \<open>
  Claim C9. Whatever the store holds when a method is called, dictionaries and arrays
  of earlier calls included, the call returns what the method returns as a function
  of the solver object, and leaves the solver object as it was; the objects of the
  store are left as they were, the call only adding its own dictionary or array
  behind them. So the same method called again on the state that the first call left
  returns the same result, and so does any sequence of calls, each returning what the
  method returns on the solver as it was constructed.
\<close>

theorem solving_twice:
  "solver (snd (call d m w)) = solver w
   \<and> fst (call d m w) = result_of d m (solver w)
   \<and> fst (call d m (snd (call d m w))) = fst (call d m w)
   \<and> take (length (store w)) (store (snd (call d m w))) = store w
   \<and> fst (calls d ms w) = map (\<lambda>m. result_of d m (solver w)) ms
   \<and> solver (snd (calls d ms w)) = solver w
   \<and> take (length (store w)) (store (snd (calls d ms w))) = store w"
proof -
  obtain o1 where o1: "call d m w = (result_of d m (solver w), w\<lparr>store := store w @ o1\<rparr>)"
    using call_result[of d m w] by blast
  obtain o2 where o2: "call d m (w\<lparr>store := store w @ o1\<rparr>) =
      (result_of d m (solver w), w\<lparr>store := store w @ o1 @ o2\<rparr>)"
    using call_result[of d m "w\<lparr>store := store w @ o1\<rparr>"] by auto
  obtain o3 where o3: "calls d ms w =
      (map (\<lambda>m. result_of d m (solver w)) ms, w\<lparr>store := store w @ o3\<rparr>)"
    using calls_result[of d ms w] by blast
  show ?thesis by (simp add: o1 o2 o3)
qed

end
